theory Spec2Isabelle
  imports Complex_Main
begin

section \<open>The radiance field of \<^verbatim>\<open>src/model/ngp.py\<close>\<close>

text \<open>
  The module evaluates a neural radiance field on batches of points. A tensor of shape
  \<open>[N, k]\<close> is a list of \<open>N\<close> rows, each a list of \<open>k\<close> numbers; tensor elements are real
  numbers, except where a result depends on the arithmetic of \<^verbatim>\<open>float32\<close>: the domain
  mapper and \<^verbatim>\<open>query_density\<close> are modelled a second time over binary32 values, with
  every operation rounded to nearest. The encoders and the fused networks
  (tiny-cuda-nn) are not part of the repository: they are fields of the record below, each a
  function from one input row to one output row, applied to every row of a batch.
  Tensors are taken to be well shaped (rows of a batch have the declared width); where the
  source combines two batches that the caller supplies separately, or receives \<open>None\<close>,
  the failure is a value of \<open>error\<close>.
\<close>

type_synonym vec = "real list"

datatype error = TypeError | AttributeError | IndexError | ValueError | RuntimeError

definition bindE :: "error + 'a \<Rightarrow> ('a \<Rightarrow> error + 'b) \<Rightarrow> error + 'b" where
  "bindE m k = (case m of Inl e \<Rightarrow> Inl e | Inr v \<Rightarrow> k v)"

record NGPradianceField =
  aabb :: vec
  num_dim :: nat
  use_viewdirs :: bool
  density_activation :: "real \<Rightarrow> real"
  unbounded :: bool
  geo_feat_dim :: nat
  use_predict_normal :: bool
  density_bias_scale :: real
  offset_scale :: real
  use_predict_bkgd :: bool
  direction_encoding :: "vec \<Rightarrow> vec"
  mlp_encoder :: "vec \<Rightarrow> vec"
  mlp_sigma :: "vec \<Rightarrow> vec"
  mlp_rgb :: "vec \<Rightarrow> vec"
  mlp_normal :: "vec \<Rightarrow> vec"
  mlp_bkgd :: "vec \<Rightarrow> vec"

subsection \<open>Activations\<close>

text \<open>
  \<^verbatim>\<open>F.softplus(x)\<close> with its defaults \<open>beta = 1\<close>, \<open>threshold = 20\<close>: the
  logarithm below the threshold, the identity above it. The constructor's default
  \<^verbatim>\<open>density_activation\<close> is \<^verbatim>\<open>lambda x: F.softplus(x - 1)\<close>.
\<close>

definition softplus :: "real \<Rightarrow> real" where
  "softplus x = (if x > 20 then x else ln (1 + exp x))"

definition default_density_activation :: "real \<Rightarrow> real" where
  "default_density_activation x = softplus (x - 1)"

subsection \<open>The domain mapper\<close>

text \<open>\<^verbatim>\<open>x.norm(dim=-1)\<close>, the Euclidean norm of one row.\<close>

definition vnorm :: "vec \<Rightarrow> real" where
  "vnorm p = sqrt (sum_list (map (\<lambda>v. v\<^sup>2) p))"

text \<open>\<^verbatim>\<open>(x - aabb_min) / (aabb_max - aabb_min)\<close> on one row.\<close>

definition rescale_aabb :: "vec \<Rightarrow> vec \<Rightarrow> vec \<Rightarrow> vec" where
  "rescale_aabb aabb_min aabb_max p = map2 (/) (map2 (-) p aabb_min) (map2 (-) aabb_max aabb_min)"

text \<open>\<^verbatim>\<open>(2 - 1 / mag) * (x / mag)\<close> on one row of magnitude \<open>mag\<close>.\<close>

definition contraction :: "real \<Rightarrow> vec \<Rightarrow> vec" where
  "contraction mag p = map (\<lambda>v. (2 - 1 / mag) * (v / mag)) p"

definition contract_to_unisphere :: "vec list \<Rightarrow> vec \<Rightarrow> real \<Rightarrow> bool \<Rightarrow> vec list" where
  "contract_to_unisphere x bounds eps derivative =
     (let aabb_min = take 3 bounds;
          aabb_max = drop 3 bounds;
          x1 = map (rescale_aabb aabb_min aabb_max) x;
          x2 = map (map (\<lambda>v. v * 2 - 1)) x1;
          mag = map vnorm x2;
          mask = map (\<lambda>m. m > 1) mag
      in if derivative then
           (let dev = map2 (\<lambda>p m. map (\<lambda>v. (2 * m - 1) / m\<^sup>2
                                + 2 * v\<^sup>2 * (1 / m ^ 3 - (2 * m - 1) / m ^ 4)) p) x2 mag;
                dev1 = map2 (\<lambda>d b. if \<not> b then map (\<lambda>_. 1) d else d) dev mask
            in map (map (\<lambda>v. max v eps)) dev1)
         else
           (let x3 = map (\<lambda>(p, m, b). if b then contraction m p else p) (zip x2 (zip mag mask))
            in map (map (\<lambda>v. v / 4 + 1 / 2)) x3))"

text \<open>
  The same mapping read row by row: the batch operations of \<open>contract_to_unisphere\<close>
  act on every row independently (see \<open>contract_to_unisphere_rows\<close>).
\<close>

definition rescaled :: "vec \<Rightarrow> vec \<Rightarrow> vec" where
  "rescaled bounds p = map (\<lambda>v. v * 2 - 1) (rescale_aabb (take 3 bounds) (drop 3 bounds) p)"

definition contract_row :: "vec \<Rightarrow> vec \<Rightarrow> vec" where
  "contract_row bounds p =
     (let q = rescaled bounds p
      in map (\<lambda>v. v / 4 + 1 / 2) (if vnorm q > 1 then contraction (vnorm q) q else q))"

subsection \<open>Density\<close>

text \<open>
  \<^verbatim>\<open>density_bias(self, x, density_bias_scale=10, offset_scale=0.5)\<close>: one value per
  point, returned as a column (\<^verbatim>\<open>tau[:, None]\<close>).
\<close>

definition density_bias :: "vec list \<Rightarrow> real \<Rightarrow> real \<Rightarrow> vec list" where
  "density_bias x scale offset =
     (let tau = map (\<lambda>p. scale * (1 - sqrt (sum_list (map (\<lambda>v. v\<^sup>2) p)) / offset)) x
      in map (\<lambda>t. [t]) tau)"

text \<open>
  The position after the domain mapping of \<^verbatim>\<open>query_density\<close>: the contraction when the
  field is unbounded, the linear rescaling by the box otherwise.
\<close>

definition map_domain :: "NGPradianceField \<Rightarrow> vec list \<Rightarrow> vec list" where
  "map_domain f x =
     (if unbounded f then contract_to_unisphere x (aabb f) (1 / 10 ^ 6) False
      else (let aabb_min = take (num_dim f) (aabb f);
                aabb_max = drop (num_dim f) (aabb f)
            in map (rescale_aabb aabb_min aabb_max) x))"

text \<open>
  \<^verbatim>\<open>query_density\<close> returns the density alone or the pair of the density and the encoded
  feature, as \<^verbatim>\<open>return_feat\<close> is false or true.
\<close>

datatype qd_result = Density "vec list" | DensityFeat "vec list" "vec list"

fun density_of :: "qd_result \<Rightarrow> vec list" where
  "density_of (Density d) = d"
| "density_of (DensityFeat d x) = d"

definition query_density :: "NGPradianceField \<Rightarrow> vec list \<Rightarrow> bool \<Rightarrow> qd_result" where
  "query_density f x return_feat =
     (let bias = density_bias x 10 (1 / 2);
          x1 = map_domain f x;
          selector = map (list_all (\<lambda>v. 0 < v \<and> v < 1)) x1;
          x2 = map (mlp_encoder f) x1;
          h = map (mlp_sigma f) x2;
          density_before_activation = map2 (\<lambda>hr br. map (\<lambda>v. v + hd br) hr) h bias;
          density = map2 (\<lambda>r s. map (\<lambda>v. density_activation f v * (if s then 1 else 0)) r)
                      density_before_activation selector
      in if return_feat then DensityFeat density x2 else Density density)"

subsection \<open>Embedding and heads\<close>

definition compute_embedding ::
    "NGPradianceField \<Rightarrow> vec list option \<Rightarrow> vec list \<Rightarrow> error + vec list" where
  "compute_embedding f dir embedding =
     (if use_viewdirs f then
        (case dir of
           None \<Rightarrow> Inl TypeError
         | Some dir0 \<Rightarrow>
             (let dir1 = map (map (\<lambda>v. (v + 1) / 2)) dir0;
                  d = map (direction_encoding f) dir1
              in if length d = length embedding then Inr (map2 (@) d embedding)
                 else Inl RuntimeError))
      else Inr embedding)"

definition query_rgb :: "NGPradianceField \<Rightarrow> vec list \<Rightarrow> vec list" where
  "query_rgb f embedding = map (mlp_rgb f) embedding"

definition query_normal :: "NGPradianceField \<Rightarrow> vec list \<Rightarrow> vec list" where
  "query_normal f embedding = map (mlp_normal f) embedding"

subsection \<open>Finite-difference normals\<close>

text \<open>
  What \<^verbatim>\<open>query_density(...)[0]\<close> yields depends on the form of the result: the first
  component of the pair, a tensor of shape \<open>[N, 1]\<close>, or the first row of the density
  tensor, of shape \<open>[1]\<close>. A tensor of either rank:
\<close>

datatype tensor = T1 vec | T2 "vec list"

fun getitem0 :: "qd_result \<Rightarrow> error + tensor" where
  "getitem0 (DensityFeat d x) = Inr (T2 d)"
| "getitem0 (Density []) = Inl IndexError"
| "getitem0 (Density (r # rs)) = Inr (T1 r)"

text \<open>Elementwise operations, along the last dimension where the ranks differ.\<close>

fun tmap :: "(real \<Rightarrow> real) \<Rightarrow> tensor \<Rightarrow> tensor" where
  "tmap g (T1 a) = T1 (map g a)"
| "tmap g (T2 a) = T2 (map (map g) a)"

fun tsub :: "tensor \<Rightarrow> tensor \<Rightarrow> tensor" where
  "tsub (T1 a) (T1 b) = T1 (map2 (-) a b)"
| "tsub (T2 a) (T2 b) = T2 (map2 (map2 (-)) a b)"
| "tsub (T2 a) (T1 b) = T2 (map (\<lambda>r. map2 (-) r b) a)"
| "tsub (T1 a) (T2 b) = T2 (map (\<lambda>r. map2 (-) a r) b)"

text \<open>\<^verbatim>\<open>torch.cat([a, b, c], dim=-1)\<close>: the tensors must agree in rank and in batch size.\<close>

fun tcat :: "tensor \<Rightarrow> tensor \<Rightarrow> tensor \<Rightarrow> error + tensor" where
  "tcat (T1 a) (T1 b) (T1 c) = Inr (T1 (a @ b @ c))"
| "tcat (T2 a) (T2 b) (T2 c) =
     (if length a = length b \<and> length b = length c
      then Inr (T2 (map (\<lambda>(p, q, r). p @ q @ r) (zip a (zip b c))))
      else Inl RuntimeError)"
| "tcat _ _ _ = Inl RuntimeError"

definition clamp :: "real \<Rightarrow> real \<Rightarrow> vec list \<Rightarrow> vec list" where
  "clamp lo hi x = map (map (\<lambda>v. min (max v lo) hi)) x"

text \<open>
  The second argument of each \<^verbatim>\<open>query_density\<close> call is \<^verbatim>\<open>bound\<close>, read as
  \<^verbatim>\<open>return_feat\<close>: a number is true when it is not zero.
\<close>

definition finite_difference_normals_approximator ::
    "NGPradianceField \<Rightarrow> vec list \<Rightarrow> real \<Rightarrow> real \<Rightarrow> error + tensor" where
  "finite_difference_normals_approximator f positions bound epsilon =
     (let pos_x = map (\<lambda>p. map2 (+) p [epsilon, 0, 0]) positions in
      bindE (getitem0 (query_density f (clamp (- bound) bound pos_x) (bound \<noteq> 0))) (\<lambda>dist_dx_pos.
      let pos_y = map (\<lambda>p. map2 (+) p [0, epsilon, 0]) positions in
      bindE (getitem0 (query_density f (clamp (- bound) bound pos_y) (bound \<noteq> 0))) (\<lambda>dist_dy_pos.
      let pos_z = map (\<lambda>p. map2 (+) p [0, 0, epsilon]) positions in
      bindE (getitem0 (query_density f (clamp (- bound) bound pos_z) (bound \<noteq> 0))) (\<lambda>dist_dz_pos.
      let neg_x = map (\<lambda>p. map2 (+) p [- epsilon, 0, 0]) positions in
      bindE (getitem0 (query_density f (clamp (- bound) bound neg_x) (bound \<noteq> 0))) (\<lambda>dist_dx_neg.
      let neg_y = map (\<lambda>p. map2 (+) p [0, - epsilon, 0]) positions in
      bindE (getitem0 (query_density f (clamp (- bound) bound neg_y) (bound \<noteq> 0))) (\<lambda>dist_dy_neg.
      let neg_z = map (\<lambda>p. map2 (+) p [0, 0, - epsilon]) positions in
      bindE (getitem0 (query_density f (clamp (- bound) bound neg_z) (bound \<noteq> 0))) (\<lambda>dist_dz_neg.
      tcat (tmap (\<lambda>v. 0.5 * v / epsilon) (tsub dist_dx_pos dist_dx_neg))
           (tmap (\<lambda>v. 0.5 * v / epsilon) (tsub dist_dy_pos dist_dy_neg))
           (tmap (\<lambda>v. 0.5 * v / epsilon) (tsub dist_dz_pos dist_dz_neg)))))))))"

subsection \<open>Safe normalisation\<close>

text \<open>
  \<^verbatim>\<open>nan_to_num_\<close> acts on values that are not numbers, so the normalisation of the
  normal is modelled on reals extended by the two infinities and NaN, with the arithmetic of
  IEEE 754 on them (rounding and the sign of zero left out).
\<close>

datatype fp = Finite real | PosInf | NegInf | NaN

definition signed_inf :: "real \<Rightarrow> fp" where
  "signed_inf s = (if s > 0 then PosInf else if s < 0 then NegInf else NaN)"

fun fmul :: "fp \<Rightarrow> fp \<Rightarrow> fp" where
  "fmul (Finite a) (Finite b) = Finite (a * b)"
| "fmul (Finite a) PosInf = signed_inf a"
| "fmul (Finite a) NegInf = signed_inf (- a)"
| "fmul PosInf (Finite b) = signed_inf b"
| "fmul NegInf (Finite b) = signed_inf (- b)"
| "fmul PosInf PosInf = PosInf"
| "fmul PosInf NegInf = NegInf"
| "fmul NegInf PosInf = NegInf"
| "fmul NegInf NegInf = PosInf"
| "fmul NaN _ = NaN"
| "fmul _ NaN = NaN"

fun fadd :: "fp \<Rightarrow> fp \<Rightarrow> fp" where
  "fadd (Finite a) (Finite b) = Finite (a + b)"
| "fadd (Finite a) PosInf = PosInf"
| "fadd (Finite a) NegInf = NegInf"
| "fadd PosInf (Finite b) = PosInf"
| "fadd NegInf (Finite b) = NegInf"
| "fadd PosInf PosInf = PosInf"
| "fadd NegInf NegInf = NegInf"
| "fadd PosInf NegInf = NaN"
| "fadd NegInf PosInf = NaN"
| "fadd NaN _ = NaN"
| "fadd _ NaN = NaN"

fun fdiv :: "fp \<Rightarrow> fp \<Rightarrow> fp" where
  "fdiv (Finite a) (Finite b) = (if b = 0 then signed_inf a else Finite (a / b))"
| "fdiv (Finite a) PosInf = Finite 0"
| "fdiv (Finite a) NegInf = Finite 0"
| "fdiv PosInf (Finite b) = (if b < 0 then NegInf else PosInf)"
| "fdiv NegInf (Finite b) = (if b < 0 then PosInf else NegInf)"
| "fdiv PosInf PosInf = NaN"
| "fdiv PosInf NegInf = NaN"
| "fdiv NegInf PosInf = NaN"
| "fdiv NegInf NegInf = NaN"
| "fdiv NaN _ = NaN"
| "fdiv _ NaN = NaN"

fun fsqrt :: "fp \<Rightarrow> fp" where
  "fsqrt (Finite a) = (if a < 0 then NaN else Finite (sqrt a))"
| "fsqrt PosInf = PosInf"
| "fsqrt NegInf = NaN"
| "fsqrt NaN = NaN"

text \<open>\<^verbatim>\<open>torch.clamp(v, min=lo)\<close>: NaN stays NaN.\<close>

fun fclamp_min :: "real \<Rightarrow> fp \<Rightarrow> fp" where
  "fclamp_min lo (Finite a) = Finite (max a lo)"
| "fclamp_min lo PosInf = PosInf"
| "fclamp_min lo NegInf = Finite lo"
| "fclamp_min lo NaN = NaN"

definition fsum :: "fp list \<Rightarrow> fp" where
  "fsum xs = foldr fadd xs (Finite 0)"

text \<open>The divisor of \<^verbatim>\<open>safe_normalize\<close>, and the lambda itself, on one row.\<close>

definition safe_divisor :: "fp list \<Rightarrow> fp" where
  "safe_divisor x = fsqrt (fclamp_min (1 / 10 ^ 20) (fsum (map (\<lambda>v. fmul v v) x)))"

definition safe_normalize :: "fp list \<Rightarrow> fp list" where
  "safe_normalize x = map (\<lambda>v. fdiv v (safe_divisor x)) x"

text \<open>
  \<^verbatim>\<open>nan_to_num_()\<close> with its defaults: NaN becomes zero, an infinity the greatest
  finite value of the dtype with its sign (here that of \<^verbatim>\<open>float32\<close>).
\<close>

definition finfo_max :: real where
  "finfo_max = (2 - 1 / 2 ^ 23) * 2 ^ 127"

fun nan_to_num :: "fp \<Rightarrow> fp" where
  "nan_to_num (Finite a) = Finite a"
| "nan_to_num NaN = Finite 0"
| "nan_to_num PosInf = Finite finfo_max"
| "nan_to_num NegInf = Finite (- finfo_max)"

fun is_finite :: "fp \<Rightarrow> bool" where
  "is_finite (Finite a) = True"
| "is_finite _ = False"

text \<open>Reading a value back as a number; applied to the results of \<open>nan_to_num\<close> only.\<close>

fun to_real :: "fp \<Rightarrow> real" where
  "to_real (Finite a) = a"
| "to_real _ = 0"

definition normalize_normal :: "vec \<Rightarrow> vec" where
  "normalize_normal n = map to_real (map nan_to_num (safe_normalize (map Finite n)))"

subsection \<open>Shading\<close>

fun tmap_row :: "(vec \<Rightarrow> vec) \<Rightarrow> tensor \<Rightarrow> tensor" where
  "tmap_row g (T1 a) = T1 (g a)"
| "tmap_row g (T2 a) = T2 (map g a)"

definition dot :: "vec \<Rightarrow> vec \<Rightarrow> real" where
  "dot a b = sum_list (map2 (*) a b)"

text \<open>
  The Lambertian term of one normal:
  \<^verbatim>\<open>ambient_ratio + (1 - ambient_ratio) * (normal @ light_direction / (light_direction**2).sum() ** (1 / 2)).clamp(min=0)\<close>.
\<close>

definition lambertian_term :: "real \<Rightarrow> vec \<Rightarrow> vec \<Rightarrow> real" where
  "lambertian_term ambient_ratio light_direction n =
     ambient_ratio + (1 - ambient_ratio)
       * max (dot n light_direction / sqrt (sum_list (map (\<lambda>v. v\<^sup>2) light_direction))) 0"

text \<open>\<^verbatim>\<open>lambertian.repeat(1, 3)\<close> and \<^verbatim>\<open>rgb * lambertian\<close>.\<close>

fun repeat_1_3 :: "tensor \<Rightarrow> vec list" where
  "repeat_1_3 (T1 a) = [a @ a @ a]"
| "repeat_1_3 (T2 a) = map (\<lambda>r. r @ r @ r) a"

fun mul_lambertian :: "vec list \<Rightarrow> tensor \<Rightarrow> vec list" where
  "mul_lambertian rgb (T1 l) = map (map (\<lambda>v. v * hd l)) rgb"
| "mul_lambertian rgb (T2 l) = map2 (\<lambda>c lr. map (\<lambda>v. v * hd lr) c) rgb l"

text \<open>
  \<^verbatim>\<open>forward\<close>. The last branch of the shading modes builds a
  \<^verbatim>\<open>NotImplementedError()\<close> and drops it: nothing is raised, and \<open>rgb\<close> is returned as
  the colour head gave it.
\<close>

definition forward ::
    "NGPradianceField \<Rightarrow> vec list \<Rightarrow> vec list option \<Rightarrow> string \<Rightarrow> vec option \<Rightarrow> real
       \<Rightarrow> error + (vec list \<times> vec list \<times> tensor option)" where
  "forward f positions directions shading light_direction ambient_ratio =
     (case query_density f positions True of
        Density d \<Rightarrow> Inl ValueError
      | DensityFeat density feat \<Rightarrow>
          bindE (compute_embedding f directions feat) (\<lambda>embedding.
          let rgb = query_rgb f embedding in
          if shading = ''albedo'' then Inr (rgb, density, None)
          else
            bindE (if use_predict_normal f then Inr (T2 (query_normal f embedding))
                   else finite_difference_normals_approximator f positions 2 (1 / 100)) (\<lambda>normal0.
            let normal = tmap_row normalize_normal normal0 in
            (case light_direction of
               None \<Rightarrow> Inl AttributeError
             | Some ld \<Rightarrow>
                 (let lambertian = tmap_row (\<lambda>n. [lambertian_term ambient_ratio ld n]) normal
                  in if shading = ''textureless'' then
                       Inr (repeat_1_3 lambertian, density, Some normal)
                     else if shading = ''lambertian'' then
                       Inr (mul_lambertian rgb lambertian, density, Some normal)
                     else Inr (rgb, density, Some normal))))))"

subsection \<open>Auxiliary notions for the statements\<close>

text \<open>
  The row of a result that belongs to point \<open>i\<close> of the batch; a tensor of rank one is
  shared by all points.
\<close>

fun row_of :: "tensor \<Rightarrow> nat \<Rightarrow> vec" where
  "row_of (T1 a) i = a"
| "row_of (T2 a) i = a ! i"

text \<open>The density that \<open>query_density\<close> gives for a single point.\<close>

definition density_at :: "NGPradianceField \<Rightarrow> vec \<Rightarrow> real" where
  "density_at f q = hd (hd (density_of (query_density f [q] False)))"

definition clamp_point :: "real \<Rightarrow> vec \<Rightarrow> vec" where
  "clamp_point bound q = map (\<lambda>v. min (max v (- bound)) bound) q"

text \<open>
  The normal estimate as the specification words it, for one point: on each axis the
  central difference of the densities at the two perturbed and clamped points.
\<close>

definition central_difference_normal :: "NGPradianceField \<Rightarrow> real \<Rightarrow> real \<Rightarrow> vec \<Rightarrow> vec" where
  "central_difference_normal f bound epsilon p =
     [0.5 * (density_at f (clamp_point bound (map2 (+) p [epsilon, 0, 0]))
             - density_at f (clamp_point bound (map2 (+) p [- epsilon, 0, 0]))) / epsilon,
      0.5 * (density_at f (clamp_point bound (map2 (+) p [0, epsilon, 0]))
             - density_at f (clamp_point bound (map2 (+) p [0, - epsilon, 0]))) / epsilon,
      0.5 * (density_at f (clamp_point bound (map2 (+) p [0, 0, epsilon]))
             - density_at f (clamp_point bound (map2 (+) p [0, 0, - epsilon]))) / epsilon]"

text \<open>Classes of extended values met while normalising.\<close>

fun nonneg_or_nan :: "fp \<Rightarrow> bool" where
  "nonneg_or_nan (Finite a) = (0 \<le> a)"
| "nonneg_or_nan PosInf = True"
| "nonneg_or_nan NegInf = False"
| "nonneg_or_nan NaN = True"

fun positive_or_nan :: "fp \<Rightarrow> bool" where
  "positive_or_nan (Finite a) = (0 < a)"
| "positive_or_nan PosInf = True"
| "positive_or_nan NegInf = False"
| "positive_or_nan NaN = True"

fun inf_or_nan :: "fp \<Rightarrow> bool" where
  "inf_or_nan (Finite a) = False"
| "inf_or_nan PosInf = True"
| "inf_or_nan NegInf = False"
| "inf_or_nan NaN = True"

text \<open>
  A field with the constructor's defaults on the box \<open>[-1, 1]\<^sup>3\<close> and simple stand-ins for
  the encoders and networks, of the declared widths; and the same field with a normal head
  whose output is very short.
\<close>

definition example_field :: NGPradianceField where
  "example_field =
     \<lparr>aabb = [-1, -1, -1, 1, 1, 1], num_dim = 3, use_viewdirs = True,
      density_activation = default_density_activation, unbounded = False, geo_feat_dim = 31,
      use_predict_normal = True, density_bias_scale = 10, offset_scale = 1 / 2,
      use_predict_bkgd = True,
      direction_encoding = (\<lambda>d. replicate 16 (sum_list d)),
      mlp_encoder = (\<lambda>p. replicate 32 (sum_list p)),
      mlp_sigma = (\<lambda>e. [hd e]),
      mlp_rgb = (\<lambda>e. [1 / 2, 1 / 2, 1 / 2]),
      mlp_normal = (\<lambda>e. [1 / 3, 2 / 3, 2 / 3]),
      mlp_bkgd = (\<lambda>d. [0, 0, 0])\<rparr>"


subsection \<open>Single precision\<close>

text \<open>
  The tensors of the module are \<^verbatim>\<open>float32\<close>. Two of its results depend on that: whether the
  contraction stays below \<open>1\<close>, and what the mask of \<^verbatim>\<open>query_density\<close> does to a value
  that is not a number. For these the domain mapper and \<^verbatim>\<open>query_density\<close> are modelled a
  second time over the values \<open>fp\<close>, every operation being the exact operation followed by
  rounding to binary32.

  \<open>rne\<close> rounds a real to the nearest integer, a tie to the even one. \<open>expo32 x\<close> is the
  binary exponent of \<open>x\<close>, not below \<open>-126\<close> (below it the values are subnormal), and
  \<open>ulp32 x\<close> the spacing of binary32 values at \<open>x\<close> (24 significant bits). \<open>round32\<close> rounds a
  real to the nearest multiple of that spacing, and \<open>representable32\<close> are the values with a
  significand of at most 24 bits and an exponent in range.
\<close>

definition rne :: "real \<Rightarrow> int" where
  "rne y = (let f = \<lfloor>y\<rfloor> in
             if y - of_int f < 1 / 2 then f
             else if 1 / 2 < y - of_int f then f + 1
             else if even f then f else f + 1)"

definition expo32 :: "real \<Rightarrow> int" where
  "expo32 x = max \<lfloor>log 2 \<bar>x\<bar>\<rfloor> (- 126)"

definition ulp32 :: "real \<Rightarrow> real" where
  "ulp32 x = 2 powr of_int (expo32 x - 23)"

definition round32 :: "real \<Rightarrow> real" where
  "round32 x = (if x = 0 then 0 else of_int (rne (x / ulp32 x)) * ulp32 x)"

definition representable32 :: "real \<Rightarrow> bool" where
  "representable32 x = (\<exists>M k. x = of_int M * 2 powr of_int k \<and> \<bar>M\<bar> < 2 ^ 24 \<and> - 149 \<le> k)"

text \<open>
  \<open>rnd\<close> is the rounding of a result: a magnitude from \<open>2 ^ 128 - 2 ^ 103\<close> on, the midpoint
  between the largest finite binary32 value and \<open>2 ^ 128\<close>, overflows to an infinity. The
  operations \<open>fadd\<close>, \<open>fmul\<close>, \<open>fdiv\<close> and \<open>fsqrt\<close> above give the exact result and the IEEE
  special values; the operations of a \<^verbatim>\<open>float32\<close> tensor are these followed by \<open>rnd\<close>. A sum
  over an axis adds the entries from left to right, starting from zero.
\<close>

fun fneg :: "fp \<Rightarrow> fp" where
  "fneg (Finite a) = Finite (- a)"
| "fneg PosInf = NegInf"
| "fneg NegInf = PosInf"
| "fneg NaN = NaN"

fun rnd :: "fp \<Rightarrow> fp" where
  "rnd (Finite x) =
     (if 2 ^ 128 - 2 ^ 103 \<le> \<bar>x\<bar> then (if 0 < x then PosInf else NegInf)
      else Finite (round32 x))"
| "rnd PosInf = PosInf"
| "rnd NegInf = NegInf"
| "rnd NaN = NaN"

definition f32_add :: "fp \<Rightarrow> fp \<Rightarrow> fp" where
  "f32_add a b = rnd (fadd a b)"

definition f32_sub :: "fp \<Rightarrow> fp \<Rightarrow> fp" where
  "f32_sub a b = rnd (fadd a (fneg b))"

definition f32_mul :: "fp \<Rightarrow> fp \<Rightarrow> fp" where
  "f32_mul a b = rnd (fmul a b)"

definition f32_div :: "fp \<Rightarrow> fp \<Rightarrow> fp" where
  "f32_div a b = rnd (fdiv a b)"

definition f32_sqrt :: "fp \<Rightarrow> fp" where
  "f32_sqrt a = rnd (fsqrt a)"

definition f32_sum :: "fp list \<Rightarrow> fp" where
  "f32_sum xs = foldl f32_add (Finite 0) xs"

text \<open>
  The comparisons \<^verbatim>\<open>x > c\<close> and \<^verbatim>\<open>x < c\<close> of a tensor element with a constant: a comparison
  with NaN is false. \<open>fp_in_unit\<close> is one element of \<^verbatim>\<open>(x > 0.0) & (x < 1.0)\<close>.
\<close>

fun fp_gt :: "fp \<Rightarrow> real \<Rightarrow> bool" where
  "fp_gt (Finite a) c = (c < a)"
| "fp_gt PosInf c = True"
| "fp_gt NegInf c = False"
| "fp_gt NaN c = False"

fun fp_lt :: "fp \<Rightarrow> real \<Rightarrow> bool" where
  "fp_lt (Finite a) c = (a < c)"
| "fp_lt PosInf c = False"
| "fp_lt NegInf c = True"
| "fp_lt NaN c = False"

definition fp_in_unit :: "fp \<Rightarrow> bool" where
  "fp_in_unit v = (fp_gt v 0 \<and> fp_lt v 1)"

fun fp_abs_le :: "real \<Rightarrow> fp \<Rightarrow> bool" where
  "fp_abs_le m (Finite a) = (\<bar>a\<bar> \<le> m)"
| "fp_abs_le m _ = False"

subsection \<open>The domain mapper in single precision\<close>

text \<open>
  \<^verbatim>\<open>contract_to_unisphere\<close> on \<^verbatim>\<open>float32\<close> tensors, on the branch \<^verbatim>\<open>derivative=False\<close> that
  \<^verbatim>\<open>query_density\<close> takes: the same steps as \<open>contract_to_unisphere\<close> above, each operation
  rounded. \<^verbatim>\<open>x.norm(dim=-1)\<close> is the rounded square root of the sum of the rounded squares.
  \<open>rescaled_f32\<close> and \<open>contract_row_f32\<close> are the position after \<^verbatim>\<open>x * 2 - 1\<close> and the output
  row of one point; \<open>identity_box\<close> is the box \<open>[-1, 1]\<^sup>3\<close>.
\<close>

definition norm_f32 :: "fp list \<Rightarrow> fp" where
  "norm_f32 p = f32_sqrt (f32_sum (map (\<lambda>v. f32_mul v v) p))"

definition rescale_aabb_f32 :: "fp list \<Rightarrow> fp list \<Rightarrow> fp list \<Rightarrow> fp list" where
  "rescale_aabb_f32 aabb_min aabb_max p =
     map2 f32_div (map2 f32_sub p aabb_min) (map2 f32_sub aabb_max aabb_min)"

definition contraction_f32 :: "fp \<Rightarrow> fp list \<Rightarrow> fp list" where
  "contraction_f32 mag p =
     map (\<lambda>v. f32_mul (f32_sub (Finite 2) (f32_div (Finite 1) mag)) (f32_div v mag)) p"

definition contract_to_unisphere_f32 :: "fp list list \<Rightarrow> fp list \<Rightarrow> fp list list" where
  "contract_to_unisphere_f32 x bounds =
     (let aabb_min = take 3 bounds;
          aabb_max = drop 3 bounds;
          x1 = map (rescale_aabb_f32 aabb_min aabb_max) x;
          x2 = map (map (\<lambda>v. f32_sub (f32_mul v (Finite 2)) (Finite 1))) x1;
          mag = map norm_f32 x2;
          mask = map (\<lambda>m. fp_gt m 1) mag;
          x3 = map (\<lambda>(p, m, b). if b then contraction_f32 m p else p) (zip x2 (zip mag mask))
      in map (map (\<lambda>v. f32_add (f32_div v (Finite 4)) (Finite (1 / 2)))) x3)"

definition rescaled_f32 :: "fp list \<Rightarrow> fp list \<Rightarrow> fp list" where
  "rescaled_f32 bounds p =
     map (\<lambda>v. f32_sub (f32_mul v (Finite 2)) (Finite 1))
       (rescale_aabb_f32 (take 3 bounds) (drop 3 bounds) p)"

definition contract_row_f32 :: "fp list \<Rightarrow> fp list \<Rightarrow> fp list" where
  "contract_row_f32 bounds p =
     (let q = rescaled_f32 bounds p
      in map (\<lambda>v. f32_add (f32_div v (Finite 4)) (Finite (1 / 2)))
           (if fp_gt (norm_f32 q) 1 then contraction_f32 (norm_f32 q) q else q))"

definition identity_box :: "fp list" where
  "identity_box = [Finite (- 1), Finite (- 1), Finite (- 1), Finite 1, Finite 1, Finite 1]"

subsection \<open>Density in single precision\<close>

text \<open>
  \<^verbatim>\<open>trunc_exp = _TruncExp.apply\<close>, whose forward pass is \<^verbatim>\<open>torch.exp(x)\<close> on \<^verbatim>\<open>float32\<close>: the
  exponential overflows to \<open>+inf\<close>. It is an activation that the constructor accepts for
  \<^verbatim>\<open>density_activation\<close>.
\<close>

fun trunc_exp :: "fp \<Rightarrow> fp" where
  "trunc_exp (Finite x) = rnd (Finite (exp x))"
| "trunc_exp PosInf = PosInf"
| "trunc_exp NegInf = Finite 0"
| "trunc_exp NaN = NaN"

text \<open>
  The fields of the radiance field that \<^verbatim>\<open>query_density\<close> reads, over binary32 values. The
  encoder and the density head are functions from one row to one row, as before.
\<close>

record NGPradianceField_f32 =
  aabb_f32 :: "fp list"
  num_dim_f32 :: nat
  density_activation_f32 :: "fp \<Rightarrow> fp"
  unbounded_f32 :: bool
  mlp_encoder_f32 :: "fp list \<Rightarrow> fp list"
  mlp_sigma_f32 :: "fp list \<Rightarrow> fp list"

definition density_bias_f32 :: "fp list list \<Rightarrow> fp \<Rightarrow> fp \<Rightarrow> fp list list" where
  "density_bias_f32 x scale offset =
     (let tau = map (\<lambda>p. f32_mul scale
                    (f32_sub (Finite 1)
                       (f32_div (f32_sqrt (f32_sum (map (\<lambda>v. f32_mul v v) p))) offset))) x
      in map (\<lambda>t. [t]) tau)"

definition map_domain_f32 :: "NGPradianceField_f32 \<Rightarrow> fp list list \<Rightarrow> fp list list" where
  "map_domain_f32 f x =
     (if unbounded_f32 f then contract_to_unisphere_f32 x (aabb_f32 f)
      else (let aabb_min = take (num_dim_f32 f) (aabb_f32 f);
                aabb_max = drop (num_dim_f32 f) (aabb_f32 f)
            in map (rescale_aabb_f32 aabb_min aabb_max) x))"

text \<open>
  \<open>pre_activation_f32\<close> is \<^verbatim>\<open>density_before_activation = h + density_bias\<close>, and
  \<open>query_density_f32\<close> the whole of \<^verbatim>\<open>query_density\<close>: the mask is the product of the
  activation's value with the selector, \<open>1.0\<close> or \<open>0.0\<close>, and the product of an infinity
  or NaN with \<open>0.0\<close> is NaN (\<open>fmul\<close>).
\<close>

definition pre_activation_f32 :: "NGPradianceField_f32 \<Rightarrow> fp list list \<Rightarrow> fp list list" where
  "pre_activation_f32 f x =
     (let bias = density_bias_f32 x (Finite 10) (Finite (1 / 2));
          x2 = map (mlp_encoder_f32 f) (map_domain_f32 f x);
          h = map (mlp_sigma_f32 f) x2
      in map2 (\<lambda>hr br. map (\<lambda>v. f32_add v (hd br)) hr) h bias)"

datatype qd_result_f32 =
  Density_f32 "fp list list" | DensityFeat_f32 "fp list list" "fp list list"

fun density_of_f32 :: "qd_result_f32 \<Rightarrow> fp list list" where
  "density_of_f32 (Density_f32 d) = d"
| "density_of_f32 (DensityFeat_f32 d x) = d"

definition query_density_f32 ::
    "NGPradianceField_f32 \<Rightarrow> fp list list \<Rightarrow> bool \<Rightarrow> qd_result_f32" where
  "query_density_f32 f x return_feat =
     (let x1 = map_domain_f32 f x;
          selector = map (list_all fp_in_unit) x1;
          x2 = map (mlp_encoder_f32 f) x1;
          density_before_activation = pre_activation_f32 f x;
          density = map2 (\<lambda>r s. map (\<lambda>v. f32_mul (density_activation_f32 f v)
                                              (Finite (if s then 1 else 0))) r)
                      density_before_activation selector
      in if return_feat then DensityFeat_f32 density x2 else Density_f32 density)"

text \<open>
  Two fields with the activation \<^verbatim>\<open>trunc_exp\<close> and the identity box: a bounded one whose
  density head returns \<open>200\<close>, and an unbounded one whose density head returns \<open>0\<close>.
\<close>

definition exp_field :: NGPradianceField_f32 where
  "exp_field =
     \<lparr>aabb_f32 = identity_box, num_dim_f32 = 3, density_activation_f32 = trunc_exp,
      unbounded_f32 = False,
      mlp_encoder_f32 = (\<lambda>p. replicate 32 (Finite 0)),
      mlp_sigma_f32 = (\<lambda>e. [Finite 200])\<rparr>"

definition far_field :: NGPradianceField_f32 where
  "far_field =
     \<lparr>aabb_f32 = identity_box, num_dim_f32 = 3, density_activation_f32 = trunc_exp,
      unbounded_f32 = True,
      mlp_encoder_f32 = (\<lambda>p. replicate 32 (Finite 0)),
      mlp_sigma_f32 = (\<lambda>e. [Finite 0])\<rparr>"

section \<open>Batches are processed row by row\<close>

lemma zip3_same: "zip (map f xs) (zip (map g xs) (map h xs)) = map (\<lambda>x. (f x, g x, h x)) xs"
  by (induction xs) auto

lemma map2_same: "map2 k (map f xs) (map g xs) = map (\<lambda>x. k (f x) (g x)) xs"
  by (induction xs) auto

lemma zip3_map:
  "map k (zip (map f xs) (zip (map g xs) (map h xs))) = map (\<lambda>x. k (f x, g x, h x)) xs"
  by (induction xs) auto

lemma contract_to_unisphere_rows:
  "contract_to_unisphere x bounds eps False = map (contract_row bounds) x"
  unfolding contract_to_unisphere_def contract_row_def rescaled_def Let_def
  by (simp add: zip3_same map2_same comp_def)

lemma length_map_domain: "length (map_domain f x) = length x"
  by (simp add: map_domain_def contract_to_unisphere_rows Let_def)

lemma map_domain_nth: "i < length x \<Longrightarrow> map_domain f x ! i = hd (map_domain f [x ! i])"
  by (simp add: map_domain_def contract_to_unisphere_rows Let_def)

lemma length_query_density: "length (density_of (query_density f x rf)) = length x"
  by (simp add: query_density_def Let_def density_bias_def length_map_domain)

lemma density_nth:
  assumes "i < length x"
  shows "density_of (query_density f x rf) ! i =
           map (\<lambda>v. density_activation f
                       (v + 10 * (1 - sqrt (sum_list (map (\<lambda>a. a\<^sup>2) (x ! i))) / (1 / 2)))
                      * (if list_all (\<lambda>v. 0 < v \<and> v < 1) (map_domain f x ! i) then 1 else 0))
               (mlp_sigma f (mlp_encoder f (map_domain f x ! i)))"
  using assms
  by (simp add: query_density_def Let_def density_bias_def length_map_domain)

lemma query_density_True:
  "query_density f x True
     = DensityFeat (density_of (query_density f x True)) (map (mlp_encoder f) (map_domain f x))"
  by (simp add: query_density_def Let_def)

lemma query_density_False:
  "query_density f x False = Density (density_of (query_density f x False))"
  by (simp add: query_density_def Let_def)

lemma query_density_True_case:
  "(case query_density f x True of Density d \<Rightarrow> a d | DensityFeat d e \<Rightarrow> b d e)
     = b (density_of (query_density f x True)) (map (mlp_encoder f) (map_domain f x))"
  by (subst query_density_True) simp

section \<open>Density\<close>

text \<open>
  Over the reals the mask is an exact factor: a point whose image under the domain mapping
  is not strictly inside the unit cube on every axis has a row of zeros. The statement
  for \<^verbatim>\<open>float32\<close> tensors, where the activation can return an infinity or NaN, is in the
  section on the masked density in single precision.
\<close>

lemma query_density_exact_zero_outside_domain:
  assumes "i < length x"
    and "\<not> list_all (\<lambda>v. 0 < v \<and> v < 1) (map_domain f x ! i)"
  shows "list_all (\<lambda>v. v = 0) (density_of (query_density f x return_feat) ! i)"
  using assms by (auto simp: density_nth list_all_iff)

text \<open>
  Claim C3. The bias inside \<open>query_density\<close> is \<open>10 * (1 - sqrt (sum (position\<^sup>2)) / 0.5)\<close>,
  computed on the position before the domain mapping: \<open>density_bias\<close> is called with its
  defaults, so the result of \<open>query_density\<close> does not change with the
  \<open>density_bias_scale\<close> and \<open>offset_scale\<close> that the field stores.
\<close>

theorem query_density_bias_defaults:
  assumes "i < length x"
  shows "query_density (f\<lparr>density_bias_scale := s, offset_scale := c\<rparr>) x return_feat
           = query_density f x return_feat
       \<and> density_bias x 10 (1 / 2) ! i
           = [10 * (1 - sqrt (sum_list (map (\<lambda>a. a\<^sup>2) (x ! i))) / 0.5)]
       \<and> density_of (query_density f x return_feat) ! i =
           map (\<lambda>v. density_activation f
                       (v + 10 * (1 - sqrt (sum_list (map (\<lambda>a. a\<^sup>2) (x ! i))) / 0.5))
                      * (if list_all (\<lambda>v. 0 < v \<and> v < 1) (map_domain f x ! i) then 1 else 0))
               (mlp_sigma f (mlp_encoder f (map_domain f x ! i)))"
proof -
  have a: "query_density (f\<lparr>density_bias_scale := s, offset_scale := c\<rparr>) x return_feat
           = query_density f x return_feat"
    by (simp add: query_density_def map_domain_def)
  have b: "density_bias x 10 (1 / 2) ! i
             = [10 * (1 - sqrt (sum_list (map (\<lambda>a. a\<^sup>2) (x ! i))) / 0.5)]"
    using assms by (simp add: density_bias_def)
  show ?thesis using a b density_nth[OF assms, of f return_feat] by simp
qed

theorem query_density_bias_defaults_witness:
  "(0::nat) < length [[2, 0, 0 :: real]]
   \<and> query_density (example_field\<lparr>density_bias_scale := 3, offset_scale := 7\<rparr>) [[2, 0, 0]] False
       = query_density example_field [[2, 0, 0]] False
   \<and> density_bias [[2, 0, 0]] 10 (1 / 2) ! 0
       = [10 * (1 - sqrt (sum_list (map (\<lambda>a. a\<^sup>2) ([[2, 0, 0]] ! 0))) / 0.5)]"
proof -
  have i: "(0::nat) < length [[2, 0, 0 :: real]]" by simp
  from query_density_bias_defaults[OF i, where f = example_field and s = 3 and c = 7
      and return_feat = False] i
  show ?thesis by blast
qed

lemma softplus_nonneg: "0 \<le> softplus x"
proof (cases "x > 20")
  case True
  then show ?thesis by (simp add: softplus_def)
next
  case False
  have "1 \<le> 1 + exp x" by simp
  then have "0 \<le> ln (1 + exp x)" by (rule ln_ge_zero)
  with False show ?thesis by (simp add: softplus_def)
qed

text \<open>
  Claim C4. With the default activation \<open>softplus (x - 1)\<close> every density that
  \<open>query_density\<close> returns is at least \<open>0\<close>, for every pre-activation value.
\<close>

theorem query_density_softplus_nonneg:
  assumes "density_activation f = default_density_activation"
  shows "list_all (list_all (\<lambda>v. 0 \<le> v)) (density_of (query_density f x return_feat))"
proof -
  have "list_all (\<lambda>v. 0 \<le> v) (density_of (query_density f x return_feat) ! i)"
    if "i < length x" for i
    using that assms
    by (simp add: density_nth list_all_iff default_density_activation_def softplus_nonneg)
  then show ?thesis
    by (simp add: list_all_length length_query_density)
qed

theorem query_density_softplus_nonneg_witness:
  "density_activation example_field = default_density_activation
   \<and> list_all (list_all (\<lambda>v. 0 \<le> v))
       (density_of (query_density example_field [[0, 0, 0], [2, 0, 0]] True))"
proof -
  have a: "density_activation example_field = default_density_activation"
    by (simp add: example_field_def)
  from query_density_softplus_nonneg[OF a, of "[[0, 0, 0], [2, 0, 0]]" True] a
  show ?thesis by blast
qed

section \<open>The unisphere contraction\<close>

lemma sq_le_sum_squares: "(v::real) \<in> set p \<Longrightarrow> v\<^sup>2 \<le> sum_list (map (\<lambda>a. a\<^sup>2) p)"
proof (induction p)
  case Nil
  then show ?case by simp
next
  case (Cons a p)
  have nn: "0 \<le> sum_list (map (\<lambda>a. a\<^sup>2) p)" by (induction p) auto
  show ?case
  proof (cases "v = a")
    case True
    with nn show ?thesis by simp
  next
    case False
    with Cons have le: "v\<^sup>2 \<le> sum_list (map (\<lambda>a. a\<^sup>2) p)" by simp
    have sq: "0 \<le> a\<^sup>2" by simp
    have "sum_list (map (\<lambda>a. a\<^sup>2) (a # p)) = a\<^sup>2 + sum_list (map (\<lambda>a. a\<^sup>2) p)"
      by simp
    with le sq show ?thesis by linarith
  qed
qed

lemma abs_le_vnorm: "v \<in> set p \<Longrightarrow> \<bar>v\<bar> \<le> vnorm p"
proof -
  assume "v \<in> set p"
  then have "v\<^sup>2 \<le> sum_list (map (\<lambda>a. a\<^sup>2) p)" by (rule sq_le_sum_squares)
  then have "sqrt (v\<^sup>2) \<le> sqrt (sum_list (map (\<lambda>a. a\<^sup>2) p))" by (rule real_sqrt_le_mono)
  then show ?thesis by (simp add: vnorm_def)
qed

text \<open>Beyond magnitude one, a contracted coordinate has absolute value below two.\<close>

lemma contraction_bound:
  assumes m: "1 < vnorm q" and v: "v \<in> set q"
  shows "\<bar>(2 - 1 / vnorm q) * (v / vnorm q)\<bar> < 2"
proof -
  let ?m = "vnorm q"
  have mpos: "0 < ?m" using m by simp
  have "\<bar>v\<bar> \<le> ?m" using v by (rule abs_le_vnorm)
  then have r: "\<bar>v / ?m\<bar> \<le> 1" using mpos by (simp add: field_simps)
  have "1 / ?m < 1" using m by simp
  moreover have "0 < 1 / ?m" using mpos by simp
  ultimately have c: "0 < 2 - 1 / ?m" "2 - 1 / ?m < 2" by linarith+
  have "\<bar>(2 - 1 / ?m) * (v / ?m)\<bar> = (2 - 1 / ?m) * \<bar>v / ?m\<bar>"
    using c by (simp add: abs_mult)
  also have "\<dots> \<le> (2 - 1 / ?m) * 1"
    using r c by (intro mult_left_mono) simp_all
  also have "\<dots> < 2" using c by simp
  finally show ?thesis .
qed

lemma contract_row_inside:
  assumes "1 < vnorm (rescaled bounds p)"
  shows "list_all (\<lambda>v. 0 < v \<and> v < 1) (contract_row bounds p)"
proof -
  let ?q = "rescaled bounds p"
  have "0 < w / 4 + 1 / 2 \<and> w / 4 + 1 / 2 < 1" if "w \<in> set (contraction (vnorm ?q) ?q)" for w
  proof -
    from that obtain v where "v \<in> set ?q" and "w = (2 - 1 / vnorm ?q) * (v / vnorm ?q)"
      by (auto simp: contraction_def)
    with contraction_bound[OF assms, of v] have "\<bar>w\<bar> < 2" by simp
    then show ?thesis by (simp add: abs_less_iff)
  qed
  then show ?thesis using assms
    by (simp add: contract_row_def Let_def list_all_iff)
qed

lemma rescaled_identity: "length p = 3 \<Longrightarrow> rescaled [-1, -1, -1, 1, 1, 1] p = p"
proof -
  assume "length p = 3"
  then obtain a b c where "p = [a, b, c]"
    by (auto simp: numeral_3_eq_3 length_Suc_conv)
  then show ?thesis by (simp add: rescaled_def rescale_aabb_def field_simps)
qed

text \<open>
  Over the reals every contracted position is strictly inside the unit cube, at any
  magnitude above one. The statement for \<^verbatim>\<open>float32\<close> tensors, where the result is rounded,
  is in the section on the contraction in single precision.
\<close>

lemma contract_to_unisphere_exact_inside_unit_cube:
  assumes "i < length x"
    and "1 < vnorm (rescaled [-1, -1, -1, 1, 1, 1] (x ! i))"
  shows "list_all (\<lambda>v. 0 < v \<and> v < 1)
           (contract_to_unisphere x [-1, -1, -1, 1, 1, 1] eps False ! i)"
  using assms by (simp add: contract_to_unisphere_rows contract_row_inside)

lemma contraction_unit: "contraction 1 q = q"
  by (simp add: contraction_def)

text \<open>
  Claim C7. The contraction is continuous at magnitude one: for a point of rescaled
  magnitude \<open>1\<close> the formula \<open>(2 - 1 / m) * (x / m)\<close> returns the point itself, so the
  value that \<open>contract_to_unisphere\<close> computes on the pass-through branch is the value
  that the contraction formula would give.
\<close>

theorem contract_to_unisphere_continuous_at_one:
  assumes "i < length x"
    and "vnorm (rescaled bounds (x ! i)) = 1"
  shows "contraction (vnorm (rescaled bounds (x ! i))) (rescaled bounds (x ! i))
           = rescaled bounds (x ! i)
       \<and> contract_to_unisphere x bounds eps False ! i
           = map (\<lambda>v. v / 4 + 1 / 2) (rescaled bounds (x ! i))
       \<and> contract_to_unisphere x bounds eps False ! i
           = map (\<lambda>v. v / 4 + 1 / 2)
               (contraction (vnorm (rescaled bounds (x ! i))) (rescaled bounds (x ! i)))"
  using assms
  by (simp add: contract_to_unisphere_rows contract_row_def Let_def contraction_unit)

theorem contract_to_unisphere_continuous_at_one_witness:
  "(0::nat) < length [[1, 0, 0 :: real]]
   \<and> vnorm (rescaled [-1, -1, -1, 1, 1, 1] ([[1, 0, 0]] ! 0)) = 1
   \<and> contraction (vnorm (rescaled [-1, -1, -1, 1, 1, 1] ([[1, 0, 0]] ! 0)))
         (rescaled [-1, -1, -1, 1, 1, 1] ([[1, 0, 0]] ! 0))
       = rescaled [-1, -1, -1, 1, 1, 1] ([[1, 0, 0]] ! 0)
   \<and> contract_to_unisphere [[1, 0, 0]] [-1, -1, -1, 1, 1, 1] (1 / 10 ^ 6) False ! 0
       = map (\<lambda>v. v / 4 + 1 / 2) (rescaled [-1, -1, -1, 1, 1, 1] ([[1, 0, 0]] ! 0))"
proof -
  have i: "(0::nat) < length [[1, 0, 0 :: real]]" by simp
  have m: "vnorm (rescaled [-1, -1, -1, 1, 1, 1] ([[1, 0, 0]] ! 0)) = 1"
    by (simp add: rescaled_identity vnorm_def)
  from contract_to_unisphere_continuous_at_one[OF i m, where eps = "1 / 10 ^ 6"] i m
  show ?thesis by blast
qed

section \<open>Finite-difference normals\<close>

text \<open>When the density head has one output, a row of the density is the density of its point.\<close>

lemma density_row_single:
  assumes w: "\<And>e. length (mlp_sigma f e) = 1" and i: "i < length x"
  shows "density_of (query_density f x rf) ! i = [density_at f (x ! i)]"
proof -
  let ?g = "\<lambda>v. density_activation f
                  (v + 10 * (1 - sqrt (sum_list (map (\<lambda>a. a\<^sup>2) (x ! i))) / (1 / 2)))
               * (if list_all (\<lambda>v. 0 < v \<and> v < 1) (hd (map_domain f [x ! i])) then 1 else 0)"
  obtain s where s: "mlp_sigma f (mlp_encoder f (hd (map_domain f [x ! i]))) = [s]"
    using w[of "mlp_encoder f (hd (map_domain f [x ! i]))"]
    by (auto simp: length_Suc_conv)
  have m: "map_domain f [x ! i] ! 0 = hd (map_domain f [x ! i])"
    using map_domain_nth[of 0 "[x ! i]" f] by simp
  have a: "density_of (query_density f [x ! i] False) ! 0 = map ?g [s]"
    using density_nth[of 0 "[x ! i]" f False] by (simp add: m s)
  have l: "length (density_of (query_density f [x ! i] False)) = 1"
    by (simp add: length_query_density)
  then have "hd (density_of (query_density f [x ! i] False))
               = density_of (query_density f [x ! i] False) ! 0"
    by (cases "density_of (query_density f [x ! i] False)") simp_all
  with a have "density_at f (x ! i) = ?g s"
    by (simp add: density_at_def)
  moreover have "density_of (query_density f x rf) ! i = map ?g [s]"
    using density_nth[OF i, of f rf] by (simp add: map_domain_nth[OF i] s)
  ultimately show ?thesis by simp
qed

lemma density_rows_single:
  assumes w: "\<And>e. length (mlp_sigma f e) = 1"
  shows "density_of (query_density f x rf) = map (\<lambda>p. [density_at f p]) x"
  by (rule nth_equalityI) (simp_all add: length_query_density density_row_single[OF w])

lemma getitem0_feat:
  assumes w: "\<And>e. length (mlp_sigma f e) = 1"
  shows "getitem0 (query_density f x True) = Inr (T2 (map (\<lambda>p. [density_at f p]) x))"
  using density_rows_single[OF w, of x True] by (subst query_density_True) simp

lemma getitem0_density:
  assumes w: "\<And>e. length (mlp_sigma f e) = 1" and "x \<noteq> []"
  shows "getitem0 (query_density f x False) = Inr (T1 [density_at f (hd x)])"
proof -
  from \<open>x \<noteq> []\<close> obtain p ps where x: "x = p # ps" by (cases x) auto
  show ?thesis
    by (subst query_density_False) (simp add: density_rows_single[OF w] x)
qed

lemma clamp_rows:
  "clamp (- bound) bound (map g positions) = map (\<lambda>p. clamp_point bound (g p)) positions"
  by (simp add: clamp_def clamp_point_def)

text \<open>A bound that is not zero is true as \<^verbatim>\<open>return_feat\<close>: the result has one row per point.\<close>

lemma fd_nonzero_bound:
  assumes w: "\<And>e. length (mlp_sigma f e) = 1" and b: "bound \<noteq> 0"
  shows "finite_difference_normals_approximator f positions bound epsilon
           = Inr (T2 (map (central_difference_normal f bound epsilon) positions))"
  unfolding finite_difference_normals_approximator_def Let_def
  using b
  by (simp add: clamp_rows getitem0_feat[OF w] bindE_def map2_same zip3_map comp_def
        central_difference_normal_def)

lemma clamp_point_zero:
  assumes "length e = length e'"
  shows "clamp_point 0 (map2 (+) p e) = clamp_point 0 (map2 (+) p e')"
  using assms by (simp add: clamp_point_def) (rule nth_equalityI, simp_all)

lemma cdn_zero_bound: "central_difference_normal f 0 epsilon p = [0, 0, 0]"
proof -
  have a: "clamp_point 0 (map2 (+) p [epsilon, 0, 0]) = clamp_point 0 (map2 (+) p [- epsilon, 0, 0])"
    by (rule clamp_point_zero) simp
  have b: "clamp_point 0 (map2 (+) p [0, epsilon, 0]) = clamp_point 0 (map2 (+) p [0, - epsilon, 0])"
    by (rule clamp_point_zero) simp
  have c: "clamp_point 0 (map2 (+) p [0, 0, epsilon]) = clamp_point 0 (map2 (+) p [0, 0, - epsilon])"
    by (rule clamp_point_zero) simp
  show ?thesis by (simp add: central_difference_normal_def a b c)
qed

text \<open>
  The bound zero is false as \<^verbatim>\<open>return_feat\<close>: each call returns the density alone, and
  \<^verbatim>\<open>[0]\<close> takes the row of the first point.
\<close>

lemma fd_zero_bound:
  assumes w: "\<And>e. length (mlp_sigma f e) = 1" and ne: "positions \<noteq> []"
  shows "finite_difference_normals_approximator f positions 0 epsilon
           = Inr (T1 (central_difference_normal f 0 epsilon (hd positions)))"
proof -
  have g: "getitem0 (query_density f (clamp 0 0 (map g positions)) False)
             = Inr (T1 [density_at f (clamp_point 0 (g (hd positions)))])" for g
    using ne clamp_rows[of 0 g positions] getitem0_density[OF w, of "clamp 0 0 (map g positions)"]
    by (simp add: hd_map)
  show ?thesis
    unfolding finite_difference_normals_approximator_def Let_def
    by (simp add: g bindE_def central_difference_normal_def)
qed

text \<open>
  Claim C5. For every point \<open>p\<close> of the batch the estimator returns the vector of the three
  central differences \<open>0.5 * (density (p + eps * axis) - density (p - eps * axis)) / epsilon\<close>,
  the six perturbed points clamped into \<open>[-bound, bound]\<close> and only the density of
  \<open>query_density\<close> read. The density head has one output, as the constructor declares. For
  a bound other than zero the result is the tensor of these vectors, one row per point.
\<close>

theorem finite_difference_normals_central:
  assumes w: "\<And>e. length (mlp_sigma f e) = 1" and i: "i < length positions"
  shows "\<exists>t. finite_difference_normals_approximator f positions bound epsilon = Inr t
           \<and> row_of t i = central_difference_normal f bound epsilon (positions ! i)
           \<and> (bound \<noteq> 0 \<longrightarrow> t = T2 (map (central_difference_normal f bound epsilon) positions))"
proof (cases "bound = 0")
  case True
  from i have ne: "positions \<noteq> []" by auto
  show ?thesis using True fd_zero_bound[OF w ne, of epsilon]
    by (simp add: cdn_zero_bound)
next
  case False
  then show ?thesis using fd_nonzero_bound[OF w False, of positions epsilon] i by simp
qed

theorem finite_difference_normals_central_witness:
  "(\<forall>e. length (mlp_sigma example_field e) = 1)
   \<and> (0::nat) < length [[0, 0, 0 :: real]]
   \<and> finite_difference_normals_approximator example_field [[0, 0, 0]] 2 (1 / 100)
       = Inr (T2 [central_difference_normal example_field 2 (1 / 100) [0, 0, 0]])"
proof -
  have w: "length (mlp_sigma example_field e) = 1" for e
    by (simp add: example_field_def)
  have i: "(0::nat) < length [[0, 0, 0 :: real]]" by simp
  from finite_difference_normals_central[OF w i, where bound = 2 and epsilon = "1 / 100"]
  have "finite_difference_normals_approximator example_field [[0, 0, 0]] 2 (1 / 100)
       = Inr (T2 [central_difference_normal example_field 2 (1 / 100) [0, 0, 0]])"
    by auto
  with w i show ?thesis by blast
qed

text \<open>With the bound \<open>2\<close> that \<open>forward\<close> passes, the estimate has one row per point.\<close>

lemma getitem0_True_rank2:
  "getitem0 (query_density f x True) = Inr (T2 (density_of (query_density f x True)))"
  by (subst query_density_True) simp

lemma fd_rank2:
  assumes "finite_difference_normals_approximator f positions 2 epsilon = Inr t"
  shows "\<exists>n. t = T2 n"
  using assms
  unfolding finite_difference_normals_approximator_def Let_def
  by (simp add: getitem0_True_rank2 bindE_def split: if_splits) blast

section \<open>Safe normalisation\<close>

lemma sqrt_tiny: "sqrt (1 / 10 ^ 20) = 1 / 10 ^ 10"
  by (rule real_sqrt_unique) (simp_all add: power2_eq_square)

lemma fmul_self: "nonneg_or_nan (fmul v v)"
  by (cases v) (simp_all add: signed_inf_def)

lemma fmul_self_inf: "\<not> is_finite v \<Longrightarrow> inf_or_nan (fmul v v)"
  by (cases v) (simp_all add: signed_inf_def)

lemma fadd_nonneg: "nonneg_or_nan a \<Longrightarrow> nonneg_or_nan b \<Longrightarrow> nonneg_or_nan (fadd a b)"
  by (cases a; cases b) simp_all

lemma fadd_inf_left: "inf_or_nan a \<Longrightarrow> nonneg_or_nan b \<Longrightarrow> inf_or_nan (fadd a b)"
  by (cases a; cases b) simp_all

lemma fadd_inf_right: "nonneg_or_nan a \<Longrightarrow> inf_or_nan b \<Longrightarrow> inf_or_nan (fadd a b)"
  by (cases a; cases b) simp_all

text \<open>The sum of the squares is never negative; it is infinite or NaN once an entry is.\<close>

lemma fsum_squares_nonneg: "nonneg_or_nan (fsum (map (\<lambda>v. fmul v v) x))"
  by (induction x) (simp_all add: fsum_def fadd_nonneg fmul_self)

lemma fsum_squares_inf:
  "v \<in> set x \<Longrightarrow> \<not> is_finite v \<Longrightarrow> inf_or_nan (fsum (map (\<lambda>v. fmul v v) x))"
proof (induction x)
  case Nil
  then show ?case by simp
next
  case (Cons a x)
  have tl: "nonneg_or_nan (fsum (map (\<lambda>v. fmul v v) x))" by (rule fsum_squares_nonneg)
  have unf: "fsum (map (\<lambda>v. fmul v v) (a # x)) = fadd (fmul a a) (fsum (map (\<lambda>v. fmul v v) x))"
    by (simp add: fsum_def)
  show ?case
  proof (cases "v = a")
    case True
    with Cons.prems have "inf_or_nan (fmul a a)" by (simp add: fmul_self_inf)
    with tl show ?thesis unfolding unf by (simp add: fadd_inf_left)
  next
    case False
    with Cons have "inf_or_nan (fsum (map (\<lambda>v. fmul v v) x))" by simp
    with fmul_self[of a] show ?thesis unfolding unf by (simp add: fadd_inf_right)
  qed
qed

lemma safe_divisor_positive: "positive_or_nan (safe_divisor x)"
proof -
  have "nonneg_or_nan s \<Longrightarrow> positive_or_nan (fsqrt (fclamp_min (1 / 10 ^ 20) s))" for s
    by (cases s) (simp_all add: max_def)
  then show ?thesis unfolding safe_divisor_def using fsum_squares_nonneg by blast
qed

lemma safe_divisor_inf:
  assumes "v \<in> set x" "\<not> is_finite v"
  shows "inf_or_nan (safe_divisor x)"
proof -
  have "inf_or_nan s \<Longrightarrow> inf_or_nan (fsqrt (fclamp_min (1 / 10 ^ 20) s))" for s
    by (cases s) simp_all
  then show ?thesis unfolding safe_divisor_def using fsum_squares_inf[OF assms] by blast
qed

lemma safe_divisor_nonzero: "safe_divisor x \<noteq> Finite 0"
  using safe_divisor_positive[of x] by (cases "safe_divisor x") auto

lemma fdiv_finite_or_nan:
  assumes "positive_or_nan d" "\<not> is_finite v \<Longrightarrow> inf_or_nan d"
  shows "is_finite (fdiv v d) \<or> fdiv v d = NaN"
  using assms by (cases v; cases d) simp_all

lemma safe_normalize_entries:
  "list_all (\<lambda>v. is_finite v \<or> v = NaN) (safe_normalize x)"
  unfolding safe_normalize_def list_all_iff
  using fdiv_finite_or_nan safe_divisor_positive safe_divisor_inf by auto

lemma nan_to_num_finite: "is_finite (nan_to_num v)"
  by (cases v) simp_all

lemma fsum_zeros: "fsum (replicate n (Finite 0)) = Finite 0"
  by (induction n) (simp_all add: fsum_def)

lemma safe_divisor_zeros: "safe_divisor (replicate n (Finite 0)) = Finite (1 / 10 ^ 10)"
  using sqrt_tiny by (simp add: safe_divisor_def fsum_zeros)

text \<open>On a row of numbers the normalisation stays within the numbers.\<close>

lemma fsum_finite: "fsum (map Finite xs) = Finite (sum_list xs)"
  by (induction xs) (simp_all add: fsum_def)

lemma safe_divisor_finite:
  "safe_divisor (map Finite n)
     = Finite (sqrt (max (sum_list (map (\<lambda>v. v * v) n)) (1 / 10 ^ 20)))"
proof -
  have "map (\<lambda>v. fmul v v) (map Finite n) = map Finite (map (\<lambda>v. v * v) n)" by simp
  then have "fsum (map (\<lambda>v. fmul v v) (map Finite n)) = Finite (sum_list (map (\<lambda>v. v * v) n))"
    by (simp only: fsum_finite)
  moreover have "\<not> max (sum_list (map (\<lambda>v. v * v) n)) (1 / 10 ^ 20) < 0" by (simp add: max_def)
  ultimately show ?thesis by (simp add: safe_divisor_def)
qed

lemma normalize_normal_eq:
  "normalize_normal n
     = map (\<lambda>v. v / sqrt (max (sum_list (map (\<lambda>v. v * v) n)) (1 / 10 ^ 20))) n"
proof -
  have "0 < max (sum_list (map (\<lambda>v. v * v) n)) (1 / 10 ^ 20)" by (simp add: max_def)
  then have "sqrt (max (sum_list (map (\<lambda>v. v * v) n)) (1 / 10 ^ 20)) \<noteq> 0" by simp
  then show ?thesis
    by (simp add: normalize_normal_def safe_normalize_def safe_divisor_finite comp_def)
qed

lemma sum_list_divide:
  "sum_list (map (\<lambda>v. v\<^sup>2 / c) n) = sum_list (map (\<lambda>v. v\<^sup>2) n) / (c::real)"
  by (induction n) (simp_all add: add_divide_distrib)

text \<open>A normal whose squared norm reaches the clamp is normalised to unit length.\<close>

lemma normalize_normal_unit:
  assumes "1 / 10 ^ 20 \<le> sum_list (map (\<lambda>v. v\<^sup>2) n)"
  shows "sum_list (map (\<lambda>v. v\<^sup>2) (normalize_normal n)) = 1"
proof -
  let ?s = "sum_list (map (\<lambda>v. v\<^sup>2) n)"
  have s: "sum_list (map (\<lambda>v. v * v) n) = ?s" by (simp add: power2_eq_square)
  have "(0::real) < 1 / 10 ^ 20" by simp
  with assms have pos: "0 < ?s" by linarith
  have mx: "max (sum_list (map (\<lambda>v. v * v) n)) (1 / 10 ^ 20) = ?s"
    using assms unfolding s by (rule max_absorb1)
  have "normalize_normal n = map (\<lambda>v. v / sqrt ?s) n"
    by (simp only: normalize_normal_eq mx)
  then have "sum_list (map (\<lambda>v. v\<^sup>2) (normalize_normal n)) = sum_list (map (\<lambda>v. v\<^sup>2 / ?s) n)"
    using pos by (simp add: comp_def power_divide)
  also have "\<dots> = ?s / ?s" by (rule sum_list_divide)
  finally show ?thesis using pos by simp
qed

text \<open>
  Claim C10. \<open>safe_normalize\<close> of the zero vector is finite: the squared norm is clamped
  below at \<open>1e-20\<close> before the division, so the divisor is \<open>1e-10\<close> and the result is the
  zero vector. For every row the divisor is never zero, an entry of the quotient is a
  number or NaN, and \<open>nan_to_num\<close> puts zero for each entry that is not a number.
\<close>

theorem safe_normalize_zero_vector:
  "safe_divisor (replicate n (Finite 0)) = Finite (1 / 10 ^ 10)
   \<and> safe_normalize (replicate n (Finite 0)) = replicate n (Finite 0)
   \<and> normalize_normal (replicate n 0) = replicate n 0
   \<and> safe_divisor x \<noteq> Finite 0
   \<and> list_all (\<lambda>v. is_finite v \<or> v = NaN) (safe_normalize x)
   \<and> list_all is_finite (map nan_to_num (safe_normalize x))
   \<and> map nan_to_num (safe_normalize x)
       = map (\<lambda>v. if is_finite v then v else Finite 0) (safe_normalize x)"
proof -
  have z: "safe_normalize (replicate n (Finite 0)) = replicate n (Finite 0)"
    by (simp add: safe_normalize_def safe_divisor_zeros map_replicate_const)
  have y: "normalize_normal (replicate n 0) = replicate n 0"
    by (simp add: normalize_normal_eq)
  have e: "list_all (\<lambda>v. is_finite v \<or> v = NaN) (safe_normalize x)"
    by (rule safe_normalize_entries)
  have r: "nan_to_num v = (if is_finite v then v else Finite 0)" if "is_finite v \<or> v = NaN" for v
    using that by (cases v) simp_all
  have m: "map nan_to_num (safe_normalize x)
       = map (\<lambda>v. if is_finite v then v else Finite 0) (safe_normalize x)"
    using e r by (simp add: list_all_iff)
  have f: "list_all is_finite (map nan_to_num (safe_normalize x))"
    by (simp add: list_all_iff nan_to_num_finite)
  show ?thesis using z y e m f safe_divisor_zeros safe_divisor_nonzero by simp
qed

section \<open>Shading\<close>

text \<open>
  Claim C9. With the shading mode \<open>albedo\<close>, \<open>forward\<close> returns no normal and the colour
  exactly as the colour head gives it on the embedding; the call fails only where the
  embedding cannot be formed.
\<close>

theorem forward_albedo:
  "forward f positions directions ''albedo'' light_direction ambient_ratio =
     bindE (compute_embedding f directions (map (mlp_encoder f) (map_domain f positions)))
       (\<lambda>embedding. Inr (map (mlp_rgb f) embedding,
                           density_of (query_density f positions True), None))"
  by (simp add: forward_def query_density_True_case query_rgb_def)

lemma example_density:
  "density_of (query_density example_field [[0, 0, 0]] True)
     = [[default_density_activation (23 / 2)]]"
  by (simp add: query_density_def Let_def density_bias_def map_domain_def example_field_def
        rescale_aabb_def)

lemma example_embedding:
  "compute_embedding example_field (Some [[0, 0, 1]])
       (map (mlp_encoder example_field) (map_domain example_field [[0, 0, 0]]))
     = Inr [replicate 16 2 @ replicate 32 (3 / 2)]"
  by (simp add: compute_embedding_def map_domain_def example_field_def rescale_aabb_def)

lemma normalize_example: "normalize_normal [1 / 3, 2 / 3, 2 / 3] = [1 / 3, 2 / 3, 2 / 3]"
  by (simp add: normalize_normal_eq)

lemma example_field_heads:
  "use_viewdirs example_field" "use_predict_normal example_field"
  "mlp_rgb example_field = (\<lambda>e. [1 / 2, 1 / 2, 1 / 2])"
  "mlp_normal example_field = (\<lambda>e. [1 / 3, 2 / 3, 2 / 3])"
  by (simp_all add: example_field_def)

text \<open>
  Claim C1. A call of \<open>forward\<close> with a shading mode other than \<open>albedo\<close>, \<open>textureless\<close> and
  \<open>lambertian\<close> should fail. The code does not: with the mode \<open>phong\<close> the call below
  returns the colour of the colour head, the density and the normalised normal.
\<close>

theorem forward_unsupported_shading_returns:
  "forward example_field [[0, 0, 0]] (Some [[0, 0, 1]]) ''phong'' (Some [0, 0, 1]) (1 / 10)
     = Inr ([[1 / 2, 1 / 2, 1 / 2]], [[default_density_activation (23 / 2)]],
            Some (T2 [[1 / 3, 2 / 3, 2 / 3]]))"
  unfolding forward_def
  by (simp add: query_density_True_case example_density example_embedding bindE_def
      query_rgb_def query_normal_def example_field_heads normalize_example)

text \<open>
  The same holds for every other mode, where the embedding can be formed and the light
  direction is given (stated for the normal head).
\<close>

lemma forward_other_mode:
  assumes "shading \<noteq> ''albedo''" "shading \<noteq> ''textureless''" "shading \<noteq> ''lambertian''"
    and "compute_embedding f directions (map (mlp_encoder f) (map_domain f positions))
           = Inr embedding"
    and "use_predict_normal f"
  shows "forward f positions directions shading (Some ld) a
           = Inr (map (mlp_rgb f) embedding, density_of (query_density f positions True),
                  Some (T2 (map normalize_normal (map (mlp_normal f) embedding))))"
  using assms unfolding forward_def
  by (simp add: query_density_True_case bindE_def query_rgb_def query_normal_def)

text \<open>A normal that \<open>forward\<close> returns has one row per point.\<close>

lemma forward_normal_rank2:
  assumes "forward f positions directions shading light_direction a = Inr (rgb, density, Some t)"
  shows "\<exists>n. t = T2 n"
proof -
  have "tmap_row g u = t \<Longrightarrow> (\<exists>n. u = T2 n) \<Longrightarrow> \<exists>n. t = T2 n" for g u
    by auto
  then show ?thesis
    using assms fd_rank2[of f positions "1 / 100"]
    unfolding forward_def
    by (auto simp: query_density_True_case bindE_def Let_def
        split: sum.splits if_splits option.splits)
qed











section \<open>Rounding to single precision\<close>

text \<open>
  Rounding to nearest is monotone, leaves a representable value unchanged, always returns
  a representable value and moves its argument by at most half a unit in the last place.
\<close>

lemma rne_of_int: "rne (of_int n) = n"
  by (simp add: rne_def)

lemma rne_bounds: "\<lfloor>y\<rfloor> \<le> rne y \<and> rne y \<le> \<lfloor>y\<rfloor> + 1"
  by (simp add: rne_def Let_def)

lemma rne_mono: "y \<le> z \<Longrightarrow> rne y \<le> rne z"
proof -
  assume yz: "y \<le> z"
  then have fl: "\<lfloor>y\<rfloor> \<le> \<lfloor>z\<rfloor>" by (rule floor_mono)
  show ?thesis
  proof (cases "\<lfloor>y\<rfloor> = \<lfloor>z\<rfloor>")
    case True
    with yz have "y - of_int \<lfloor>y\<rfloor> \<le> z - of_int \<lfloor>z\<rfloor>" by simp
    with True show ?thesis by (auto simp: rne_def Let_def)
  next
    case False
    with fl have "\<lfloor>y\<rfloor> + 1 \<le> \<lfloor>z\<rfloor>" by simp
    with rne_bounds[of y] rne_bounds[of z] show ?thesis by linarith
  qed
qed

lemma ulp32_pos: "0 < ulp32 x"
  by (simp add: ulp32_def)

lemma expo32_ge: "- 126 \<le> expo32 x"
  by (simp add: expo32_def)

lemma abs_less_expo32: 
  assumes "x \<noteq> 0"
  shows "\<bar>x\<bar> < 2 powr of_int (expo32 x + 1)"
proof -
  have "log 2 \<bar>x\<bar> < of_int (\<lfloor>log 2 \<bar>x\<bar>\<rfloor> + 1)" by linarith
  also have "\<dots> \<le> of_int (expo32 x + 1)" by (simp add: expo32_def)
  finally have "log 2 \<bar>x\<bar> < of_int (expo32 x + 1)" .
  with assms show ?thesis by (simp add: log_less_iff)
qed

lemma expo32_le_abs:
  assumes "x \<noteq> 0" "- 126 < expo32 x"
  shows "2 powr of_int (expo32 x) \<le> \<bar>x\<bar>"
proof -
  from assms(2) have e: "expo32 x = \<lfloor>log 2 \<bar>x\<bar>\<rfloor>"
    by (simp add: expo32_def max_def split: if_splits)
  have "0 < \<bar>x\<bar>" using assms(1) by simp
  from floor_log_eq_powr_iff[OF this, of 2 "\<lfloor>log 2 \<bar>x\<bar>\<rfloor>"]
  show ?thesis unfolding e by simp
qed

lemma expo32_mono:
  assumes "x \<noteq> 0" "\<bar>x\<bar> \<le> \<bar>y\<bar>"
  shows "expo32 x \<le> expo32 y"
proof -
  from assms have "log 2 \<bar>x\<bar> \<le> log 2 \<bar>y\<bar>" by simp
  then have "\<lfloor>log 2 \<bar>x\<bar>\<rfloor> \<le> \<lfloor>log 2 \<bar>y\<bar>\<rfloor>" by (rule floor_mono)
  then show ?thesis by (simp add: expo32_def)
qed

lemma expo32_eq:
  assumes "2 powr of_int k \<le> \<bar>x\<bar>" "\<bar>x\<bar> < 2 powr of_int (k + 1)" "- 126 \<le> k"
  shows "expo32 x = k"
proof -
  have "(0::real) < 2 powr of_int k" by simp
  with assms(1) have "0 < \<bar>x\<bar>" by linarith
  then have "\<lfloor>log 2 \<bar>x\<bar>\<rfloor> = k" using assms(1,2) by (simp add: floor_log_eq_powr_iff)
  with assms(3) show ?thesis by (simp add: expo32_def)
qed

lemma ulp32_scale24: "2 powr 24 * ulp32 x = 2 powr of_int (expo32 x + 1)"
proof -
  have e: "(24::real) + of_int (expo32 x - 23) = of_int (expo32 x + 1)" by simp
  show ?thesis by (simp only: ulp32_def powr_add[symmetric] e)
qed

lemma ulp32_scale23: "2 powr 23 * ulp32 x = 2 powr of_int (expo32 x)"
proof -
  have e: "(23::real) + of_int (expo32 x - 23) = of_int (expo32 x)" by simp
  show ?thesis by (simp only: ulp32_def powr_add[symmetric] e)
qed

lemma rne_le: "y \<le> of_int n \<Longrightarrow> real_of_int (rne y) \<le> of_int n"
  using rne_mono[of y "of_int n"] by (simp add: rne_of_int)

lemma rne_ge: "of_int n \<le> y \<Longrightarrow> of_int n \<le> real_of_int (rne y)"
  using rne_mono[of "of_int n" y] by (simp add: rne_of_int)

lemma round32_nonneg: "0 \<le> x \<Longrightarrow> 0 \<le> round32 x"
proof -
  assume "0 \<le> x"
  then have "of_int 0 \<le> x / ulp32 x" using ulp32_pos[of x] by simp
  then have "of_int 0 \<le> real_of_int (rne (x / ulp32 x))" by (rule rne_ge)
  then show ?thesis using ulp32_pos[of x] by (simp add: round32_def)
qed

lemma round32_nonpos: "x \<le> 0 \<Longrightarrow> round32 x \<le> 0"
proof -
  assume "x \<le> 0"
  then have "x / ulp32 x \<le> of_int 0" using ulp32_pos[of x] by (simp add: divide_le_0_iff)
  then have "real_of_int (rne (x / ulp32 x)) \<le> of_int 0" by (rule rne_le)
  then show ?thesis using ulp32_pos[of x] by (simp add: round32_def mult_le_0_iff)
qed

lemma round32_abs_le:
  assumes "x \<noteq> 0"
  shows "\<bar>round32 x\<bar> \<le> 2 powr of_int (expo32 x + 1)"
proof -
  let ?u = "ulp32 x"
  define N :: int where "N = 2 ^ 24"
  have N: "real_of_int N = 2 powr 24" by (simp add: N_def)
  have u: "0 < ?u" by (rule ulp32_pos)
  from abs_less_expo32[OF assms] have "\<bar>x\<bar> < 2 powr 24 * ?u" by (simp only: ulp32_scale24)
  then have "\<bar>x\<bar> < of_int N * ?u" by (simp only: N)
  then have "\<bar>x / ?u\<bar> < of_int N" using u by (simp add: field_simps)
  then have "x / ?u < of_int N" "- (x / ?u) < of_int N" by (simp_all only: abs_less_iff)
  then have le: "x / ?u \<le> of_int N" and ge: "of_int (- N) \<le> x / ?u" by simp_all
  have "real_of_int (rne (x / ?u)) \<le> of_int N" using le by (rule rne_le)
  moreover have "of_int (- N) \<le> real_of_int (rne (x / ?u))" using ge by (rule rne_ge)
  ultimately have "\<bar>real_of_int (rne (x / ?u))\<bar> \<le> of_int N" by simp
  then have m: "\<bar>real_of_int (rne (x / ?u))\<bar> * ?u \<le> of_int N * ?u"
    using u by (intro mult_right_mono) simp_all
  have "\<bar>round32 x\<bar> = \<bar>real_of_int (rne (x / ?u))\<bar> * ?u"
    using assms u by (simp add: round32_def abs_mult)
  also note m
  also have "of_int N * ?u = 2 powr of_int (expo32 x + 1)" by (simp only: N ulp32_scale24)
  finally show ?thesis .
qed

lemma round32_ge_binade:
  assumes "0 < x" "- 126 < expo32 x"
  shows "2 powr of_int (expo32 x) \<le> round32 x"
proof -
  let ?u = "ulp32 x"
  define N :: int where "N = 2 ^ 23"
  have N: "real_of_int N = 2 powr 23" by (simp add: N_def)
  have u: "0 < ?u" by (rule ulp32_pos)
  from expo32_le_abs[of x] assms have "2 powr of_int (expo32 x) \<le> x" by simp
  then have "of_int N * ?u \<le> x" by (simp only: N ulp32_scale23)
  then have "of_int N \<le> x / ?u" using u by (simp add: field_simps)
  then have "of_int N \<le> real_of_int (rne (x / ?u))" by (rule rne_ge)
  then have m: "of_int N * ?u \<le> real_of_int (rne (x / ?u)) * ?u"
    using u by (intro mult_right_mono) simp_all
  have "2 powr of_int (expo32 x) = of_int N * ?u" by (simp only: N ulp32_scale23)
  also note m
  also have "real_of_int (rne (x / ?u)) * ?u = round32 x" using assms by (simp add: round32_def)
  finally show ?thesis .
qed

lemma round32_le_binade:
  assumes "x < 0" "- 126 < expo32 x"
  shows "round32 x \<le> - (2 powr of_int (expo32 x))"
proof -
  let ?u = "ulp32 x"
  define N :: int where "N = 2 ^ 23"
  have N: "real_of_int N = 2 powr 23" by (simp add: N_def)
  have u: "0 < ?u" by (rule ulp32_pos)
  from expo32_le_abs[of x] assms have "2 powr of_int (expo32 x) \<le> - x" by simp
  then have "of_int N * ?u \<le> - x" by (simp only: N ulp32_scale23)
  then have "x / ?u \<le> of_int (- N)" using u by (simp add: field_simps)
  then have "real_of_int (rne (x / ?u)) \<le> of_int (- N)" by (rule rne_le)
  then have m: "real_of_int (rne (x / ?u)) * ?u \<le> of_int (- N) * ?u"
    using u by (intro mult_right_mono) simp_all
  have "round32 x = real_of_int (rne (x / ?u)) * ?u" using assms by (simp add: round32_def)
  also note m
  also have "of_int (- N) * ?u = - (of_int N * ?u)" by simp
  also have "\<dots> = - (2 powr of_int (expo32 x))" by (simp only: N ulp32_scale23)
  finally show ?thesis .
qed

lemma round32_same_expo:
  assumes "x \<noteq> 0" "y \<noteq> 0" "x \<le> y" "expo32 x = expo32 y"
  shows "round32 x \<le> round32 y"
proof -
  have u: "ulp32 x = ulp32 y" using assms(4) by (simp add: ulp32_def)
  have "x / ulp32 y \<le> y / ulp32 y" using assms(3) ulp32_pos[of y] by (simp add: divide_right_mono)
  from rne_mono[OF this] have "real_of_int (rne (x / ulp32 y)) \<le> real_of_int (rne (y / ulp32 y))" by simp
  then have "real_of_int (rne (x / ulp32 y)) * ulp32 y \<le> real_of_int (rne (y / ulp32 y)) * ulp32 y"
    using ulp32_pos[of y] by (intro mult_right_mono) simp_all
  then show ?thesis using assms(1,2) by (simp add: round32_def u)
qed

lemma round32_mono: "x \<le> y \<Longrightarrow> round32 x \<le> round32 y"
proof -
  assume xy: "x \<le> y"
  consider "x \<le> 0" "0 \<le> y" | "0 < x" | "y < 0" by linarith
  then show ?thesis
  proof cases
    case 1
    then show ?thesis using round32_nonpos[of x] round32_nonneg[of y] by linarith
  next
    case 2
    with xy have y: "0 < y" by simp
    from 2 xy have "expo32 x \<le> expo32 y" by (intro expo32_mono) simp_all
    then consider "expo32 x = expo32 y" | "expo32 x < expo32 y" by linarith
    then show ?thesis
    proof cases
      case 1
      then show ?thesis using 2 y xy by (intro round32_same_expo) simp_all
    next
      case b: 2
      have "round32 x \<le> 2 powr of_int (expo32 x + 1)"
        using round32_abs_le[of x] 2 by simp
      also have "\<dots> \<le> 2 powr of_int (expo32 y)" using b by (simp add: powr_le_cancel_iff)
      also have "\<dots> \<le> round32 y" using y b expo32_ge[of x] by (intro round32_ge_binade) simp_all
      finally show ?thesis .
    qed
  next
    case 3
    with xy have x: "x < 0" by simp
    from 3 xy have "expo32 y \<le> expo32 x" by (intro expo32_mono) simp_all
    then consider "expo32 x = expo32 y" | "expo32 y < expo32 x" by linarith
    then show ?thesis
    proof cases
      case 1
      then show ?thesis using 3 x xy by (intro round32_same_expo) simp_all
    next
      case b: 2
      have "round32 x \<le> - (2 powr of_int (expo32 x))"
        using x b expo32_ge[of y] by (intro round32_le_binade) simp_all
      also have "\<dots> \<le> - (2 powr of_int (expo32 y + 1))" using b by (simp add: powr_le_cancel_iff)
      also have "\<dots> \<le> round32 y" using round32_abs_le[of y] 3 by simp
      finally show ?thesis .
    qed
  qed
qed

lemma round32_exact:
  assumes x: "x = of_int M * 2 powr of_int k" and M: "\<bar>M\<bar> < 2 ^ 24" and k: "- 149 \<le> k"
  shows "round32 x = x"
proof (cases "x = 0")
  case True
  then show ?thesis by (simp add: round32_def)
next
  case False
  let ?e = "expo32 x"
  have "real_of_int \<bar>M\<bar> < real_of_int (2 ^ 24)" using M by (simp only: of_int_less_iff)
  then have "\<bar>real_of_int M\<bar> < 2 powr 24" by simp
  then have "\<bar>x\<bar> < 2 powr 24 * 2 powr of_int k"
    unfolding x by (simp add: abs_mult)
  also have "\<dots> = 2 powr of_int (k + 24)"
  proof -
    have e2: "(24::real) + of_int k = of_int (k + 24)" by simp
    show ?thesis by (simp only: powr_add[symmetric] e2)
  qed
  finally have "log 2 \<bar>x\<bar> < of_int (k + 24)" using False by (simp add: log_less_iff)
  then have "\<lfloor>log 2 \<bar>x\<bar>\<rfloor> < k + 24" by (simp add: floor_less_iff)
  with k have e: "?e - 23 \<le> k" by (simp add: expo32_def)
  define j where "j = nat (k - (?e - 23))"
  have j: "of_int (k - (?e - 23)) = real j" using e by (simp add: j_def)
  have "2 powr of_int k / ulp32 x = 2 powr (of_int k - of_int (?e - 23))"
    unfolding ulp32_def by (rule powr_diff[symmetric])
  also have "\<dots> = 2 powr real j" using j by simp
  also have "\<dots> = 2 ^ j" by (simp add: powr_realpow)
  finally have q: "2 powr of_int k / ulp32 x = 2 ^ j" .
  have "x / ulp32 x = of_int M * (2 powr of_int k / ulp32 x)" unfolding x by simp
  also have "\<dots> = of_int (M * 2 ^ j)" unfolding q by simp
  finally have "rne (x / ulp32 x) = M * 2 ^ j" by (simp only: rne_of_int)
  then have "round32 x = of_int (M * 2 ^ j) * ulp32 x" using False by (simp add: round32_def)
  also have "\<dots> = of_int M * (2 ^ j * ulp32 x)" by simp
  also have "2 ^ j * ulp32 x = 2 powr of_int k"
    using q ulp32_pos[of x] by (simp add: field_simps)
  finally show ?thesis unfolding x .
qed

lemma round32_exact_frac:
  assumes "\<bar>M\<bar> < 2 ^ 24" "j \<le> 149"
  shows "round32 (of_int M / 2 ^ j) = of_int M / 2 ^ j"
proof -
  have "(2::real) powr of_int (- int j) = 1 / 2 ^ j"
    by (simp add: powr_minus powr_realpow divide_inverse)
  then have "real_of_int M / 2 ^ j = of_int M * 2 powr of_int (- int j)" by simp
  then show ?thesis using assms by (intro round32_exact[where M = M and k = "- int j"]) simp_all
qed

lemma round32_exact_pow:
  assumes "\<bar>M\<bar> < 2 ^ 24"
  shows "round32 (of_int M * 2 ^ j) = of_int M * 2 ^ j"
proof -
  have "(2::real) powr of_int (int j) = 2 ^ j" by (simp add: powr_realpow)
  then have "real_of_int M * 2 ^ j = of_int M * 2 powr of_int (int j)" by simp
  then show ?thesis using assms by (intro round32_exact[where M = M and k = "int j"]) simp_all
qed

lemma round32_between:
  assumes "lo \<le> x" "x \<le> hi" "round32 lo = lo" "round32 hi = hi"
  shows "lo \<le> round32 x \<and> round32 x \<le> hi"
  using round32_mono[OF assms(1)] round32_mono[OF assms(2)] assms(3,4) by simp

lemma round32_0: "round32 0 = 0"
  by (simp add: round32_def)

lemma representable32_exact: "representable32 x \<Longrightarrow> round32 x = x"
  unfolding representable32_def using round32_exact by blast

lemma representable32_minus: "representable32 x \<Longrightarrow> representable32 (- x)"
proof -
  assume "representable32 x"
  then obtain M k where "x = of_int M * 2 powr of_int k" "\<bar>M\<bar> < 2 ^ 24" "- 149 \<le> k"
    unfolding representable32_def by blast
  then have "- x = of_int (- M) * 2 powr of_int k \<and> \<bar>- M\<bar> < 2 ^ 24 \<and> - 149 \<le> k" by simp
  then show ?thesis unfolding representable32_def by blast
qed

lemma representable32_abs: "representable32 x \<Longrightarrow> representable32 \<bar>x\<bar>"
  by (simp add: abs_if representable32_minus)

lemma rne_ulp_bound:
  assumes "x \<noteq> 0"
  shows "\<bar>rne (x / ulp32 x)\<bar> \<le> 2 ^ 24"
proof -
  let ?u = "ulp32 x"
  define N :: int where "N = 2 ^ 24"
  have N: "real_of_int N = 2 powr 24" by (simp add: N_def)
  have u: "0 < ?u" by (rule ulp32_pos)
  from abs_less_expo32[OF assms] have "\<bar>x\<bar> < 2 powr 24 * ?u" by (simp only: ulp32_scale24)
  then have "\<bar>x\<bar> < of_int N * ?u" by (simp only: N)
  then have "\<bar>x / ?u\<bar> < of_int N" using u by (simp add: field_simps)
  then have "x / ?u < of_int N" "- (x / ?u) < of_int N" by (simp_all only: abs_less_iff)
  then have le: "x / ?u \<le> of_int N" and ge: "of_int (- N) \<le> x / ?u" by simp_all
  have "real_of_int (rne (x / ?u)) \<le> of_int N" using le by (rule rne_le)
  moreover have "of_int (- N) \<le> real_of_int (rne (x / ?u))" using ge by (rule rne_ge)
  ultimately have "\<bar>rne (x / ?u)\<bar> \<le> N" by simp
  then show ?thesis by (simp add: N_def)
qed

lemma round32_representable: "representable32 (round32 x)"
proof (cases "x = 0")
  case True
  have "(0::real) = of_int 0 * 2 powr of_int 0 \<and> \<bar>0::int\<bar> < 2 ^ 24 \<and> - 149 \<le> (0::int)" by simp
  then show ?thesis unfolding representable32_def True round32_0 by blast
next
  case False
  define n where "n = rne (x / ulp32 x)"
  define e where "e = expo32 x"
  have r: "round32 x = of_int n * 2 powr of_int (e - 23)"
    using False by (simp add: round32_def n_def e_def ulp32_def)
  have e: "- 126 \<le> e" unfolding e_def by (rule expo32_ge)
  have nb: "\<bar>n\<bar> \<le> 2 ^ 24" unfolding n_def using False by (rule rne_ulp_bound)
  show ?thesis
  proof (cases "\<bar>n\<bar> < 2 ^ 24")
    case True
    with r e have "round32 x = of_int n * 2 powr of_int (e - 23) \<and> \<bar>n\<bar> < 2 ^ 24 \<and> - 149 \<le> e - 23"
      by simp
    then show ?thesis unfolding representable32_def by blast
  next
    case False
    with nb have "\<bar>n\<bar> = 2 ^ 24" by simp
    then consider "n = 2 ^ 24" | "n = - (2 ^ 24)" by (auto simp: abs_if split: if_splits)
    then obtain M :: int where M: "n = 2 * M" "\<bar>M\<bar> < 2 ^ 24"
    proof cases
      case 1
      then have "n = 2 * 2 ^ 23" "\<bar>2 ^ 23 :: int\<bar> < 2 ^ 24" by simp_all
      then show ?thesis using that by blast
    next
      case 2
      then have "n = 2 * (- (2 ^ 23))" "\<bar>- (2 ^ 23) :: int\<bar> < 2 ^ 24" by simp_all
      then show ?thesis using that by blast
    qed
    have p: "(2::real) * 2 powr of_int (e - 23) = 2 powr of_int (e - 22)"
    proof -
      have e1: "(1::real) + of_int (e - 23) = of_int (e - 22)" by simp
      have "(2::real) powr 1 * 2 powr of_int (e - 23) = 2 powr of_int (e - 22)"
        by (simp only: powr_add[symmetric] e1)
      then show ?thesis by simp
    qed
    have "round32 x = of_int M * (2 * 2 powr of_int (e - 23))" unfolding r M(1) by simp
    then have "round32 x = of_int M * 2 powr of_int (e - 22)" by (simp only: p)
    with M(2) e have "round32 x = of_int M * 2 powr of_int (e - 22) \<and> \<bar>M\<bar> < 2 ^ 24
        \<and> - 149 \<le> e - 22" by simp
    then show ?thesis unfolding representable32_def by blast
  qed
qed

lemma rne_lower: "y - 1 / 2 \<le> real_of_int (rne y)"
proof -
  define f where "f = \<lfloor>y\<rfloor>"
  have b: "real_of_int f \<le> y" "y < real_of_int f + 1" unfolding f_def by linarith+
  consider "y - of_int f < 1 / 2" | "1 / 2 < y - of_int f" | "y - of_int f = 1 / 2"
    by linarith
  then show ?thesis
  proof cases
    case 1
    then have "rne y = f" by (simp add: rne_def f_def)
    with 1 show ?thesis by simp
  next
    case 2
    then have "rne y = f + 1" by (simp add: rne_def f_def Let_def)
    with b show ?thesis by simp
  next
    case 3
    then have "rne y = f \<or> rne y = f + 1" by (simp add: rne_def f_def Let_def)
    with 3 show ?thesis by auto
  qed
qed

lemma round32_lower: "x - ulp32 x / 2 \<le> round32 x"
proof (cases "x = 0")
  case True
  then show ?thesis using ulp32_pos[of 0] by (simp add: round32_0)
next
  case False
  have "(x / ulp32 x - 1 / 2) * ulp32 x \<le> real_of_int (rne (x / ulp32 x)) * ulp32 x"
    using rne_lower[of "x / ulp32 x"] ulp32_pos[of x] by (intro mult_right_mono) simp_all
  moreover have "(x / ulp32 x - 1 / 2) * ulp32 x = x - ulp32 x / 2"
    using ulp32_pos[of x] by (simp add: field_simps)
  ultimately show ?thesis using False by (simp add: round32_def)
qed

text \<open>
  The square root of a rounded square is never rounded below the number that was squared:
  the norm of a row is at least the absolute value of each of its entries, in single
  precision as over the reals.
\<close>

lemma rne_upper_half:
  assumes "real_of_int M - 1 / 2 < y" "y \<le> real_of_int M"
  shows "rne y = M"
proof (cases "y = of_int M")
  case True
  then show ?thesis by (simp add: rne_of_int)
next
  case False
  with assms have lt: "y < of_int M" by simp
  have f: "\<lfloor>y\<rfloor> = M - 1"
    using assms(1) lt by (intro floor_unique) simp_all
  have "1 / 2 < y - of_int \<lfloor>y\<rfloor>" using assms(1) unfolding f by simp
  then show ?thesis unfolding rne_def Let_def f by simp
qed

lemma sqrt_dominance:
  assumes rep: "round32 w = w" and w: "1 \<le> w"
  shows "w \<le> round32 (sqrt (round32 (w\<^sup>2)))"
proof -
  define e where "e = expo32 w"
  define u where "u = ulp32 w"
  define M where "M = rne (w / u)"
  have w0: "w \<noteq> 0" "0 < w" using w by simp_all
  have u: "0 < u" unfolding u_def by (rule ulp32_pos)
  have "0 \<le> log 2 w" using w by simp
  then have "0 \<le> \<lfloor>log 2 \<bar>w\<bar>\<rfloor>" using w0 by simp
  then have e0: "0 \<le> e" unfolding e_def expo32_def by simp
  have lo: "2 powr of_int e \<le> w"
    using expo32_le_abs[of w] w0 e0 unfolding e_def by simp
  have hi: "w < 2 powr of_int (e + 1)"
    using abs_less_expo32[of w] w0 unfolding e_def by simp
  have s23: "2 powr 23 * u = 2 powr of_int e" unfolding u_def e_def by (rule ulp32_scale23)
  have s24: "2 powr 24 * u = 2 powr of_int (e + 1)" unfolding u_def e_def by (rule ulp32_scale24)
  have wM: "w = of_int M * u"
    using rep w0 unfolding round32_def M_def u_def by simp
  have M_lo: "2 powr 23 \<le> real_of_int M"
  proof -
    have "2 powr 23 * u \<le> of_int M * u" using lo unfolding s23 wM .
    then show ?thesis using u by simp
  qed
  have M_hi: "real_of_int M < 2 powr 24"
  proof -
    have "of_int M * u < 2 powr 24 * u" using hi unfolding s24 wM .
    then show ?thesis using u by simp
  qed
  have uu: "u * u = 2 powr of_int (2 * e - 46)"
  proof -
    have e1: "real_of_int (e - 23) + real_of_int (e - 23) = real_of_int (2 * e - 46)" by simp
    show ?thesis unfolding u_def ulp32_def e_def[symmetric] by (simp only: powr_add[symmetric] e1)
  qed
  show ?thesis
  proof (cases "real_of_int M = 2 powr 23")
    case True
    then have "w = 2 powr of_int e" using wM s23 by simp
    then have "w\<^sup>2 = 2 powr of_int e * 2 powr of_int e" by (simp add: power2_eq_square)
    also have "\<dots> = 2 powr of_int (2 * e)"
    proof -
      have e1: "real_of_int e + real_of_int e = real_of_int (2 * e)" by simp
      show ?thesis by (simp only: powr_add[symmetric] e1)
    qed
    finally have "w\<^sup>2 = of_int 1 * 2 powr of_int (2 * e)" by simp
    then have "round32 (w\<^sup>2) = w\<^sup>2" using e0 by (intro round32_exact[where M = 1 and k = "2 * e"]) simp_all
    then show ?thesis using w0 rep by simp
  next
    case False
    with M_lo have "2 powr 23 < real_of_int M" by simp
    then have "real_of_int (2 ^ 23) < real_of_int M" by simp
    then have "2 ^ 23 < M" by (simp only: of_int_less_iff)
    then have "2 ^ 23 + 1 \<le> M" by simp
    then have "real_of_int (2 ^ 23 + 1) \<le> real_of_int M" by (simp only: of_int_le_iff)
    then have M1: "2 powr 23 + 1 \<le> real_of_int M" by simp
    define s where "s = round32 (w\<^sup>2)"
    define z where "z = sqrt s"
    have y_hi: "w\<^sup>2 < 2 powr of_int (2 * e + 2)"
    proof -
      have "w * w < 2 powr of_int (e + 1) * 2 powr of_int (e + 1)"
        using hi w0 by (intro mult_strict_mono) simp_all
      also have "\<dots> = 2 powr of_int (2 * e + 2)"
      proof -
        have e1: "real_of_int (e + 1) + real_of_int (e + 1) = real_of_int (2 * e + 2)" by simp
        show ?thesis by (simp only: powr_add[symmetric] e1)
      qed
      finally show ?thesis by (simp add: power2_eq_square)
    qed
    have "log 2 \<bar>w\<^sup>2\<bar> < of_int (2 * e + 2)" using y_hi w0 by (simp add: log_less_iff)
    then have "\<lfloor>log 2 \<bar>w\<^sup>2\<bar>\<rfloor> < 2 * e + 2" by (simp add: floor_less_iff)
    then have ey: "expo32 (w\<^sup>2) \<le> 2 * e + 1" using e0 by (simp add: expo32_def)
    have "ulp32 (w\<^sup>2) \<le> 2 powr of_int (2 * e + 1 - 23)"
      unfolding ulp32_def using ey by (intro powr_mono) simp_all
    also have "\<dots> = 2 powr 24 * (u * u)"
    proof -
      have e1: "(24::real) + real_of_int (2 * e - 46) = real_of_int (2 * e + 1 - 23)" by simp
      show ?thesis unfolding uu by (simp only: powr_add[symmetric] e1)
    qed
    finally have ulp_y: "ulp32 (w\<^sup>2) \<le> 2 powr 24 * (u * u)" .
    have s_lo: "w\<^sup>2 - 2 powr 23 * (u * u) \<le> s"
    proof -
      have "w\<^sup>2 - ulp32 (w\<^sup>2) / 2 \<le> s" unfolding s_def by (rule round32_lower)
      moreover have "2 powr 24 * (u * u) / 2 = 2 powr 23 * (u * u)" by simp
      ultimately show ?thesis using ulp_y by linarith
    qed
    let ?m = "real_of_int M"
    have half: "((?m - 1 / 2) * u)\<^sup>2 < w\<^sup>2 - 2 powr 23 * (u * u)"
    proof -
      have "(?m - 1 / 2)\<^sup>2 < ?m\<^sup>2 - 2 powr 23"
        using M1 by (simp add: power2_eq_square algebra_simps)
      then have "(?m - 1 / 2)\<^sup>2 * (u * u) < (?m\<^sup>2 - 2 powr 23) * (u * u)"
        using u by (intro mult_strict_right_mono) simp_all
      then show ?thesis unfolding wM by (simp add: power2_eq_square algebra_simps)
    qed
    have mpos: "0 < (?m - 1 / 2) * u" using M1 u by simp
    have "((?m - 1 / 2) * u)\<^sup>2 < s" using half s_lo by linarith
    then have z_lo: "(?m - 1 / 2) * u < z" unfolding z_def by (rule real_less_rsqrt)
    show ?thesis
    proof (cases "w \<le> z")
      case True
      from round32_mono[OF this] show ?thesis unfolding z_def s_def rep .
    next
      case False
      then have zw: "z < w" by simp
      have z0: "0 < z" using mpos z_lo by linarith
      have "2 powr of_int e \<le> \<bar>z\<bar>"
      proof -
        have "2 powr 23 * u \<le> (?m - 1 / 2) * u" using M1 u by (intro mult_right_mono) simp_all
        then show ?thesis using z_lo z0 unfolding s23 by simp
      qed
      moreover have "\<bar>z\<bar> < 2 powr of_int (e + 1)" using zw hi z0 by simp
      moreover have "- 126 \<le> e" using e0 by simp
      ultimately have ez: "expo32 z = e" by (rule expo32_eq)
      have uz: "ulp32 z = u" unfolding ulp32_def ez u_def e_def ..
      have "?m - 1 / 2 < z / u" "z / u \<le> ?m"
        using z_lo zw u unfolding wM by (simp_all add: field_simps)
      then have "rne (z / u) = M" by (rule rne_upper_half)
      then have "round32 z = w" using z0 unfolding round32_def uz wM by simp
      then show ?thesis unfolding z_def s_def by simp
    qed
  qed
qed

text \<open>
  Values that binary32 holds exactly, and two ties. Just below \<open>1\<close> the spacing of binary32
  is \<open>2 ^ -24\<close>, so that \<open>1 - 2 ^ -25\<close> lies halfway between \<open>1 - 2 ^ -24\<close> and \<open>1\<close>; the
  tie goes to the even significand, which is \<open>1\<close>. Just below \<open>2\<close> the spacing is
  \<open>2 ^ -23\<close>, and the tie \<open>2 - 3 * 2 ^ -24\<close> goes down, to \<open>2 - 2 ^ -22\<close>.
\<close>

lemma expo32_below_one: "expo32 (1 - 1 / 2 ^ 25) = - 1"
proof (rule expo32_eq)
  show "2 powr real_of_int (- 1) \<le> \<bar>1 - 1 / 2 ^ 25 :: real\<bar>" by (simp add: powr_minus)
  show "\<bar>1 - 1 / 2 ^ 25 :: real\<bar> < 2 powr real_of_int (- 1 + 1)" by simp
  show "- 126 \<le> (- 1 :: int)" by simp
qed

lemma ulp32_below_one: "ulp32 (1 - 1 / 2 ^ 25) = 1 / 2 ^ 24"
proof -
  have "(2::real) powr of_int (- 24) = 1 / 2 ^ 24"
    using powr_int[of "2::real" "- 24"] by simp
  with expo32_below_one show ?thesis by (simp add: ulp32_def)
qed

lemma rne_tie_up: "rne (33554431 / 2) = 16777216"
  by (simp add: rne_def Let_def)

lemma round32_below_one: "round32 (1 - 1 / 2 ^ 25) = 1"
proof -
  let ?x = "1 - 1 / 2 ^ 25 :: real"
  have q: "?x / (1 / 2 ^ 24) = 33554431 / 2" by simp
  have "round32 ?x = of_int (rne (?x / ulp32 ?x)) * ulp32 ?x" by (simp add: round32_def)
  also have "\<dots> = of_int (rne (33554431 / 2)) * (1 / 2 ^ 24)" by (simp only: ulp32_below_one q)
  also have "\<dots> = 1" by (simp add: rne_tie_up)
  finally show ?thesis .
qed

lemma round32_three_ulps: "round32 (3 / 2 ^ 24) = 3 / 2 ^ 24"
  using round32_exact_frac[of 3 24] by simp

lemma expo32_below_two: "expo32 (2 - 3 / 2 ^ 24) = 0"
proof (rule expo32_eq)
  show "2 powr real_of_int 0 \<le> \<bar>2 - 3 / 2 ^ 24 :: real\<bar>" by simp
  show "\<bar>2 - 3 / 2 ^ 24 :: real\<bar> < 2 powr real_of_int (0 + 1)" by simp
  show "- 126 \<le> (0 :: int)" by simp
qed

lemma ulp32_below_two: "ulp32 (2 - 3 / 2 ^ 24) = 1 / 2 ^ 23"
proof -
  have "(2::real) powr of_int (- 23) = 1 / 2 ^ 23"
    using powr_int[of "2::real" "- 23"] by simp
  with expo32_below_two show ?thesis by (simp add: ulp32_def)
qed

lemma rne_tie_even: "rne (33554429 / 2) = 16777214"
  by (simp add: rne_def Let_def)

lemma round32_below_two: "round32 (2 - 3 / 2 ^ 24) = 2 - 1 / 2 ^ 22"
proof -
  let ?x = "2 - 3 / 2 ^ 24 :: real"
  have q: "?x / (1 / 2 ^ 23) = 33554429 / 2" by simp
  have "round32 ?x = of_int (rne (?x / ulp32 ?x)) * ulp32 ?x" by (simp add: round32_def)
  also have "\<dots> = of_int (rne (33554429 / 2)) * (1 / 2 ^ 23)" by (simp only: ulp32_below_two q)
  also have "\<dots> = 2 - 1 / 2 ^ 22" by (simp add: rne_tie_even)
  finally show ?thesis .
qed

lemma round32_one: "round32 1 = 1"
  using round32_exact_frac[of 1 0] by simp
lemma round32_minus_one: "round32 (- 1) = - 1"
  using round32_exact_frac[of "- 1" 0] by simp
lemma round32_two_minus: "round32 (2 - 1 / 2 ^ 22) = 2 - 1 / 2 ^ 22"
  using round32_exact_frac[of "2 ^ 23 - 1" 22] by simp
lemma round32_minus_two_minus: "round32 (- (2 - 1 / 2 ^ 22)) = - (2 - 1 / 2 ^ 22)"
  using round32_exact_frac[of "- (2 ^ 23 - 1)" 22] by simp
lemma round32_half_minus: "round32 (1 / 2 - 1 / 2 ^ 24) = 1 / 2 - 1 / 2 ^ 24"
  using round32_exact_frac[of "2 ^ 23 - 1" 24] by simp
lemma round32_minus_half_minus: "round32 (- (1 / 2 - 1 / 2 ^ 24)) = - (1 / 2 - 1 / 2 ^ 24)"
  using round32_exact_frac[of "- (2 ^ 23 - 1)" 24] by simp
lemma round32_last_place: "round32 (1 / 2 ^ 24) = 1 / 2 ^ 24"
  using round32_exact_frac[of 1 24] by simp
lemma round32_one_minus: "round32 (1 - 1 / 2 ^ 24) = 1 - 1 / 2 ^ 24"
  using round32_exact_frac[of "2 ^ 24 - 1" 24] by simp

lemma round32_numeral:
  "numeral n < (2 ^ 24 :: int) \<Longrightarrow> round32 (numeral n) = numeral n"
  using round32_exact_frac[of "numeral n" 0] by simp

lemma round32_neg_numeral:
  "numeral n < (2 ^ 24 :: int) \<Longrightarrow> round32 (- numeral n) = - numeral n"
  using round32_exact_frac[of "- numeral n" 0] by simp

lemma round32_half: "round32 (1 / 2) = 1 / 2"
  using round32_exact_frac[of 1 1] by simp

lemma rnd_exact: "round32 x = x \<Longrightarrow> \<bar>x\<bar> < 2 ^ 127 \<Longrightarrow> rnd (Finite x) = Finite x"
  by simp

lemma round32_far_plus_one: "round32 8388609 = 8388609" by (rule round32_numeral) simp
lemma round32_far_plus_one_half: "round32 (8388609 / 2) = 8388609 / 2"
  using round32_exact_frac[of 8388609 1] by simp
lemma round32_far: "round32 8388608 = 8388608" by (rule round32_numeral) simp
lemma round32_far_square: "round32 70368744177664 = 70368744177664"
  using round32_exact_pow[of 1 46] by simp
lemma round32_far_inverse: "round32 (1 / 8388608) = 1 / 8388608"
  using round32_exact_frac[of 1 23] by simp
lemma round32_far_factor: "round32 (16777215 / 8388608) = 16777215 / 8388608"
  using round32_exact_frac[of 16777215 23] by simp
lemma round32_far_quarter: "round32 (16777215 / 33554432) = 16777215 / 33554432"
  using round32_exact_frac[of 16777215 25] by simp
lemma round32_far_tie: "round32 (33554431 / 33554432) = 1"
  using round32_below_one by simp

lemma sqrt_far_square: "sqrt 70368744177664 = 8388608"
  by (rule real_sqrt_unique) simp_all

lemmas exact32 = round32_numeral round32_neg_numeral round32_0 round32_half round32_one round32_minus_one
  round32_far_plus_one round32_far_plus_one_half round32_far round32_far_square round32_far_inverse round32_far_factor round32_far_quarter round32_far_tie

section \<open>The contraction in single precision\<close>

lemma contract_to_unisphere_f32_rows:
  "contract_to_unisphere_f32 x bounds = map (contract_row_f32 bounds) x"
  unfolding contract_to_unisphere_f32_def contract_row_f32_def rescaled_f32_def Let_def
  by (simp add: zip3_same map2_same comp_def)

lemma rnd_between:
  assumes "lo \<le> x" "x \<le> hi" "round32 lo = lo" "round32 hi = hi"
    "- (2 ^ 127) \<le> lo" "hi \<le> 2 ^ 127"
  shows "\<exists>r. rnd (Finite x) = Finite r \<and> lo \<le> r \<and> r \<le> hi"
proof -
  have "\<bar>x\<bar> \<le> 2 ^ 127" using assms(1,2,5,6) by (simp add: abs_le_iff)
  then have "\<not> 2 ^ 128 - 2 ^ 103 \<le> \<bar>x\<bar>" by simp
  then have "rnd (Finite x) = Finite (round32 x)" by simp
  then show ?thesis using round32_between[OF assms(1-4)] by simp
qed

lemma rnd_bracket:
  assumes "lo \<le> x" "x \<le> hi" "- (2 ^ 127) \<le> lo" "hi \<le> 2 ^ 127"
  shows "\<exists>r. rnd (Finite x) = Finite r \<and> round32 lo \<le> r \<and> r \<le> round32 hi"
proof -
  have "\<bar>x\<bar> \<le> 2 ^ 127" using assms by (simp add: abs_le_iff)
  then have "\<not> 2 ^ 128 - 2 ^ 103 \<le> \<bar>x\<bar>" by simp
  then have "rnd (Finite x) = Finite (round32 x)" by simp
  then show ?thesis using round32_mono[OF assms(1)] round32_mono[OF assms(2)] by simp
qed

text \<open>
  One coordinate of the contraction followed by \<open>x / 4 + 0.5\<close>, for a magnitude \<open>m\<close> with
  \<open>1 < m\<close> and \<open>3 * m \<le> 2 ^ 24\<close>: the rounded \<open>2 - 1 / m\<close> is at most \<open>2 - 2 ^ -22\<close>, the
  rounded quotient \<open>v / m\<close> at most \<open>1\<close> in absolute value, and the result stays between
  \<open>2 ^ -24\<close> and \<open>1 - 2 ^ -24\<close>.
\<close>

lemma contraction_f32_coordinate:
  assumes m: "1 < m" "3 * m \<le> 2 ^ 24" and v: "\<bar>v\<bar> \<le> m"
  shows "\<exists>r. f32_add (f32_div (f32_mul (f32_sub (Finite 2) (f32_div (Finite 1) (Finite m)))
                                     (f32_div (Finite v) (Finite m))) (Finite 4)) (Finite (1 / 2))
             = Finite r \<and> 1 / 2 ^ 24 \<le> r \<and> r \<le> 1 - 1 / 2 ^ 24"
proof -
  have mpos: "0 < m" "m \<noteq> 0" using m by simp_all
  have "3 / 2 ^ 24 \<le> 1 / m" "1 / m \<le> 1" using m by (simp_all add: field_simps)
  then have "\<exists>r. rnd (Finite (1 / m)) = Finite r \<and> round32 (3 / 2 ^ 24) \<le> r \<and> r \<le> round32 1"
    by (rule rnd_bracket) simp_all
  then obtain r1 where "rnd (Finite (1 / m)) = Finite r1" "3 / 2 ^ 24 \<le> r1" "r1 \<le> 1"
    unfolding round32_three_ulps round32_one by blast
  then have r1: "f32_div (Finite 1) (Finite m) = Finite r1" "3 / 2 ^ 24 \<le> r1" "r1 \<le> 1"
    using mpos by (simp_all add: f32_div_def)
  have "1 \<le> 2 - r1" "2 - r1 \<le> 2 - 3 / 2 ^ 24" using r1 by simp_all
  then have "\<exists>r. rnd (Finite (2 - r1)) = Finite r \<and> round32 1 \<le> r
      \<and> r \<le> round32 (2 - 3 / 2 ^ 24)"
    by (rule rnd_bracket) simp_all
  then obtain a where "rnd (Finite (2 - r1)) = Finite a" "1 \<le> a" "a \<le> 2 - 1 / 2 ^ 22"
    unfolding round32_below_two round32_one by blast
  then have a: "f32_sub (Finite 2) (Finite r1) = Finite a" "1 \<le> a" "a \<le> 2 - 1 / 2 ^ 22"
    by (simp_all add: f32_sub_def)
  have "- 1 \<le> v / m" "v / m \<le> 1" using v mpos by (simp_all add: field_simps abs_le_iff)
  from rnd_between[OF this round32_minus_one round32_one]
  obtain b where b: "f32_div (Finite v) (Finite m) = Finite b" "- 1 \<le> b" "b \<le> 1"
    using mpos by (auto simp: f32_div_def)
  have ab: "\<bar>a * b\<bar> \<le> (2 - 1 / 2 ^ 22) * 1"
    unfolding abs_mult using a b by (intro mult_mono) (simp_all add: abs_le_iff)
  then have "- (2 - 1 / 2 ^ 22) \<le> a * b" "a * b \<le> 2 - 1 / 2 ^ 22"
    by (simp_all add: abs_le_iff)
  from rnd_between[OF this round32_minus_two_minus round32_two_minus]
  obtain c where c: "f32_mul (Finite a) (Finite b) = Finite c"
    "- (2 - 1 / 2 ^ 22) \<le> c" "c \<le> 2 - 1 / 2 ^ 22"
    by (auto simp: f32_mul_def)
  have "- (1 / 2 - 1 / 2 ^ 24) \<le> c / 4" "c / 4 \<le> 1 / 2 - 1 / 2 ^ 24" using c by simp_all
  from rnd_between[OF this round32_minus_half_minus round32_half_minus]
  obtain q where q: "f32_div (Finite c) (Finite 4) = Finite q"
    "- (1 / 2 - 1 / 2 ^ 24) \<le> q" "q \<le> 1 / 2 - 1 / 2 ^ 24"
    by (auto simp: f32_div_def)
  have "1 / 2 ^ 24 \<le> q + 1 / 2" "q + 1 / 2 \<le> 1 - 1 / 2 ^ 24" using q by simp_all
  from rnd_between[OF this round32_last_place round32_one_minus]
  obtain r where r: "f32_add (Finite q) (Finite (1 / 2)) = Finite r"
    "1 / 2 ^ 24 \<le> r" "r \<le> 1 - 1 / 2 ^ 24"
    by (auto simp: f32_add_def)
  show ?thesis using r1 a b c q r by simp
qed

lemma fp_abs_le_finite: "fp_abs_le m v \<Longrightarrow> \<exists>r. v = Finite r \<and> \<bar>r\<bar> \<le> m"
  by (cases v) simp_all

lemma contract_row_f32_inside:
  assumes n: "norm_f32 (rescaled_f32 bounds p) = Finite m" and m: "1 < m" "3 * m \<le> 2 ^ 24"
    and d: "list_all (fp_abs_le m) (rescaled_f32 bounds p)"
  shows "list_all fp_in_unit (contract_row_f32 bounds p)"
proof -
  let ?q = "rescaled_f32 bounds p"
  have "fp_in_unit (f32_add (f32_div (f32_mul (f32_sub (Finite 2) (f32_div (Finite 1) (Finite m)))
                                     (f32_div v (Finite m))) (Finite 4)) (Finite (1 / 2)))"
    if "v \<in> set ?q" for v
  proof -
    from that d have "fp_abs_le m v" by (simp add: list_all_iff)
    then obtain r where r: "v = Finite r" "\<bar>r\<bar> \<le> m" by (auto dest: fp_abs_le_finite)
    from contraction_f32_coordinate[OF m r(2)] show ?thesis
      unfolding r(1) by (auto simp: fp_in_unit_def)
  qed
  then show ?thesis using m
    by (simp add: contract_row_f32_def Let_def n contraction_f32_def list_all_iff)
qed

lemma rnd_Finite: "rnd v = Finite s \<Longrightarrow> \<exists>x. v = Finite x \<and> s = round32 x"
  by (cases v) (auto split: if_splits)

lemma rnd_representable: "rnd v = Finite s \<Longrightarrow> representable32 s"
  using rnd_Finite[of v s] round32_representable by auto

lemma f32_square_Finite:
  assumes "f32_mul v v = Finite s"
  shows "\<exists>r. v = Finite r \<and> s = round32 (r\<^sup>2)"
proof -
  from assms obtain x where x: "fmul v v = Finite x" "s = round32 x"
    unfolding f32_mul_def by (auto dest: rnd_Finite)
  then show ?thesis by (cases v) (auto simp: signed_inf_def power2_eq_square split: if_splits)
qed

lemma f32_add_Finite:
  assumes "f32_add a b = Finite s"
  shows "\<exists>x y. a = Finite x \<and> b = Finite y \<and> s = round32 (x + y)"
proof -
  from assms obtain z where z: "fadd a b = Finite z" "s = round32 z"
    unfolding f32_add_def by (auto dest: rnd_Finite)
  then show ?thesis by (cases a; cases b) auto
qed

lemma foldl_f32_add_Finite:
  "foldl f32_add acc xs = Finite S \<Longrightarrow> is_finite acc \<and> list_all is_finite xs"
proof (induction xs arbitrary: acc)
  case Nil
  then show ?case by simp
next
  case (Cons x xs)
  then have "is_finite (f32_add acc x)" "list_all is_finite xs" by simp_all
  then obtain s where "f32_add acc x = Finite s" by (cases "f32_add acc x") simp_all
  from f32_add_Finite[OF this] \<open>list_all is_finite xs\<close> show ?case by auto
qed

lemma foldl_f32_add_lower:
  assumes "foldl f32_add (Finite a) xs = Finite S" "0 \<le> a" "round32 a = a"
    and "list_all (\<lambda>v. \<exists>y. v = Finite y \<and> 0 \<le> y \<and> round32 y = y) xs"
  shows "a \<le> S \<and> list_all (\<lambda>v. \<exists>y. v = Finite y \<and> y \<le> S) xs"
  using assms
proof (induction xs arbitrary: a)
  case Nil
  then show ?case by simp
next
  case (Cons x xs)
  from Cons.prems(4) obtain y where y: "x = Finite y" "0 \<le> y" "round32 y = y" by auto
  from Cons.prems(1) have f: "foldl f32_add (f32_add (Finite a) (Finite y)) xs = Finite S"
    by (simp add: y)
  then have "is_finite (f32_add (Finite a) (Finite y))" by (auto dest: foldl_f32_add_Finite)
  then obtain a' where a': "f32_add (Finite a) (Finite y) = Finite a'"
    by (cases "f32_add (Finite a) (Finite y)") simp_all
  from f32_add_Finite[OF this] have r: "a' = round32 (a + y)" by simp
  have "round32 a \<le> a'" "round32 y \<le> a'"
    unfolding r using y(2) Cons.prems(2) by (intro round32_mono; simp)+
  then have b: "a \<le> a'" "y \<le> a'" using Cons.prems(3) y(3) by simp_all
  have c: "0 \<le> a'" using b Cons.prems(2) by simp
  have d: "round32 a' = a'"
    unfolding r using round32_representable representable32_exact by blast
  from Cons.IH[OF f[unfolded a'] c d] Cons.prems(4)
  have "a' \<le> S" "list_all (\<lambda>v. \<exists>y. v = Finite y \<and> y \<le> S) xs" by simp_all
  then show ?case using b y(1) by simp
qed

lemma norm_f32_dominates:
  assumes n: "norm_f32 q = Finite m" and m: "1 < m"
    and v: "v \<in> set q" and rep: "\<And>r. v = Finite r \<Longrightarrow> representable32 r"
  shows "fp_abs_le m v"
proof -
  let ?sq = "map (\<lambda>v. f32_mul v v) q"
  from n obtain z where z: "fsqrt (f32_sum ?sq) = Finite z" "m = round32 z"
    unfolding norm_f32_def f32_sqrt_def by (auto dest: rnd_Finite)
  then obtain S where S: "f32_sum ?sq = Finite S" "0 \<le> S" "z = sqrt S"
    by (cases "f32_sum ?sq") (auto split: if_splits)
  have fin: "list_all is_finite ?sq"
    using S(1) unfolding f32_sum_def by (auto dest: foldl_f32_add_Finite)
  have sq: "list_all (\<lambda>v. \<exists>y. v = Finite y \<and> 0 \<le> y \<and> round32 y = y) ?sq"
    unfolding list_all_iff
  proof
    fix t assume "t \<in> set ?sq"
    then obtain u where u: "u \<in> set q" "t = f32_mul u u" by auto
    with fin obtain y where y: "f32_mul u u = Finite y"
      by (cases "f32_mul u u") (auto simp: list_all_iff)
    from f32_square_Finite[OF this] obtain r where r: "u = Finite r" "y = round32 (r\<^sup>2)" by blast
    have "0 \<le> y" unfolding r(2) by (rule round32_nonneg) simp
    moreover have "round32 y = y"
      unfolding r(2) using round32_representable representable32_exact by blast
    ultimately show "\<exists>y. t = Finite y \<and> 0 \<le> y \<and> round32 y = y" using u(2) y by simp
  qed
  have z0: "round32 0 = 0" by (simp add: round32_def)
  from foldl_f32_add_lower[OF S(1)[unfolded f32_sum_def] _ z0 sq]
  have low: "list_all (\<lambda>v. \<exists>y. v = Finite y \<and> y \<le> S) ?sq" by simp
  from v have "f32_mul v v \<in> set ?sq" by simp
  with low obtain y where y: "f32_mul v v = Finite y" "y \<le> S" by (auto simp: list_all_iff)
  from f32_square_Finite[OF y(1)] obtain r where r: "v = Finite r" "y = round32 (r\<^sup>2)" by blast
  have "\<bar>r\<bar> \<le> m"
  proof (cases "\<bar>r\<bar> < 1")
    case True
    with m show ?thesis by simp
  next
    case False
    then have w: "1 \<le> \<bar>r\<bar>" by simp
    have "representable32 \<bar>r\<bar>" using rep[OF r(1)] by (rule representable32_abs)
    then have e: "round32 \<bar>r\<bar> = \<bar>r\<bar>" by (rule representable32_exact)
    have "\<bar>r\<bar> \<le> round32 (sqrt (round32 (\<bar>r\<bar>\<^sup>2)))" using e w by (rule sqrt_dominance)
    also have "\<dots> = round32 (sqrt y)" unfolding r(2) by simp
    also have "\<dots> \<le> round32 (sqrt S)" using y(2) by (intro round32_mono) simp
    finally show ?thesis unfolding z(2) S(3) .
  qed
  then show ?thesis unfolding r(1) by simp
qed

lemma rescaled_f32_representable:
  assumes "v \<in> set (rescaled_f32 bounds p)" "v = Finite r"
  shows "representable32 r"
proof -
  from assms(1) obtain a b where "v = f32_sub a b"
    unfolding rescaled_f32_def by auto
  with assms(2) show ?thesis unfolding f32_sub_def by (auto dest: rnd_representable)
qed

lemma contract_row_f32_inside_unit:
  assumes n: "norm_f32 (rescaled_f32 bounds p) = Finite m" and m: "1 < m" "3 * m \<le> 2 ^ 24"
  shows "list_all fp_in_unit (contract_row_f32 bounds p)"
proof -
  have "list_all (fp_abs_le m) (rescaled_f32 bounds p)"
    unfolding list_all_iff
    using norm_f32_dominates[OF n m(1)] rescaled_f32_representable by blast
  with n m show ?thesis by (rule contract_row_f32_inside)
qed

lemma round32_eleven_halves: "round32 (11 / 2) = 11 / 2"
  using round32_exact_frac[of 11 1] by simp

lemma sqrt_hundred: "sqrt 100 = 10"
  by (rule real_sqrt_unique) simp_all

lemma rescaled_ten: "rescaled_f32 identity_box [Finite 10, Finite 0, Finite 0]
   = [Finite 10, Finite 0, Finite 0]"
  by (simp add: rescaled_f32_def rescale_aabb_f32_def identity_box_def f32_sub_def f32_div_def
      f32_mul_def exact32 round32_eleven_halves)

lemma norm_ten: "norm_f32 [Finite 10, Finite 0, Finite 0] = Finite 10"
  by (simp add: norm_f32_def f32_sum_def f32_mul_def f32_add_def f32_sqrt_def exact32 sqrt_hundred)

text \<open>
  Claim C6, as amended. In single precision, with the identity box \<open>[-1, 1]\<^sup>3\<close>, a position
  whose rescaled magnitude \<open>m\<close> exceeds one and is at most \<open>2 ^ 24 / 3\<close> (about \<open>5.59e6\<close>) is
  contracted to a point all of whose coordinates, after the final \<open>x / 4 + 0.5\<close>, lie
  strictly between \<open>0\<close> and \<open>1\<close>.
\<close>

theorem contract_to_unisphere_f32_inside_unit_cube:
  assumes "i < length x"
    and "norm_f32 (rescaled_f32 identity_box (x ! i)) = Finite m"
    and "1 < m" and "3 * m \<le> 2 ^ 24"
  shows "list_all fp_in_unit (contract_to_unisphere_f32 x identity_box ! i)"
  using assms by (simp add: contract_to_unisphere_f32_rows contract_row_f32_inside_unit)

theorem contract_to_unisphere_f32_inside_unit_cube_witness:
  "(0::nat) < length [[Finite 10, Finite 0, Finite 0]]
   \<and> norm_f32 (rescaled_f32 identity_box ([[Finite 10, Finite 0, Finite 0]] ! 0)) = Finite 10
   \<and> (1::real) < 10
   \<and> 3 * (10::real) \<le> 2 ^ 24
   \<and> list_all fp_in_unit
       (contract_to_unisphere_f32 [[Finite 10, Finite 0, Finite 0]] identity_box ! 0)"
proof -
  have i: "(0::nat) < length [[Finite 10, Finite 0, Finite 0]]" by simp
  have n: "norm_f32 (rescaled_f32 identity_box ([[Finite 10, Finite 0, Finite 0]] ! 0))
             = Finite 10"
    by (simp add: rescaled_ten norm_ten)
  have a: "(1::real) < 10" by simp
  have b: "3 * (10::real) \<le> 2 ^ 24" by simp
  from contract_to_unisphere_f32_inside_unit_cube[OF i n a b] i n a b show ?thesis by blast
qed

text \<open>
  The position \<open>(2 ^ 23, 0, 0)\<close> has the rescaled magnitude \<open>2 ^ 23\<close>. There \<open>1 / m\<close> is
  \<open>2 ^ -23\<close>, the factor \<open>2 - 1 / m\<close> is \<open>2 - 2 ^ -23\<close>, exactly representable, and the first
  coordinate becomes \<open>(2 - 2 ^ -23) / 4 + 0.5 = 1 - 2 ^ -25\<close>, which rounds to \<open>1\<close>.
\<close>

lemma rescaled_far: "rescaled_f32 identity_box [Finite (2 ^ 23), Finite 0, Finite 0]
   = [Finite (2 ^ 23), Finite 0, Finite 0]"
  by (simp add: rescaled_f32_def rescale_aabb_f32_def identity_box_def f32_sub_def f32_div_def
      f32_mul_def exact32)

lemma norm_far: "norm_f32 [Finite (2 ^ 23), Finite 0, Finite 0] = Finite (2 ^ 23)"
  by (simp add: norm_f32_def f32_sum_def f32_mul_def f32_add_def f32_sqrt_def exact32 sqrt_far_square)

lemma contract_far:
  "contract_to_unisphere_f32 [[Finite (2 ^ 23), Finite 0, Finite 0]] identity_box
     = [[Finite 1, Finite (1 / 2), Finite (1 / 2)]]"
  using rescaled_far norm_far
  by (simp add: contract_to_unisphere_f32_rows contract_row_f32_def contraction_f32_def
      f32_sub_def f32_div_def f32_mul_def f32_add_def exact32)

text \<open>
  Claim C6 as stated fails in single precision: at the position \<open>(2 ^ 23, 0, 0)\<close>, of
  rescaled magnitude \<open>2 ^ 23 > 1\<close>, the first coordinate of the output is exactly \<open>1\<close>, so
  the output is not strictly inside the unit cube.
\<close>

theorem contract_to_unisphere_f32_far_point_counterexample:
  "norm_f32 (rescaled_f32 identity_box [Finite (2 ^ 23), Finite 0, Finite 0]) = Finite (2 ^ 23)
   \<and> contract_to_unisphere_f32 [[Finite (2 ^ 23), Finite 0, Finite 0]] identity_box
       = [[Finite 1, Finite (1 / 2), Finite (1 / 2)]]
   \<and> \<not> list_all fp_in_unit
         (contract_to_unisphere_f32 [[Finite (2 ^ 23), Finite 0, Finite 0]] identity_box ! 0)"
  unfolding contract_far rescaled_far norm_far by (simp add: fp_in_unit_def)

section \<open>The masked density in single precision\<close>

lemma length_map_domain_f32: "length (map_domain_f32 f x) = length x"
  by (simp add: map_domain_f32_def contract_to_unisphere_f32_rows Let_def)

lemma length_pre_activation_f32: "length (pre_activation_f32 f x) = length x"
  by (simp add: pre_activation_f32_def density_bias_f32_def Let_def length_map_domain_f32)

lemma density_f32_nth:
  assumes "i < length x"
  shows "density_of_f32 (query_density_f32 f x rf) ! i =
           map (\<lambda>v. f32_mul (density_activation_f32 f v)
                       (Finite (if list_all fp_in_unit (map_domain_f32 f x ! i) then 1 else 0)))
               (pre_activation_f32 f x ! i)"
  using assms
  by (simp add: query_density_f32_def Let_def length_map_domain_f32 length_pre_activation_f32)

lemma f32_mul_zero: "is_finite v \<Longrightarrow> f32_mul v (Finite 0) = Finite 0"
  by (cases v) (simp_all add: f32_mul_def round32_def)

lemma round32_far_double: "round32 16777216 = 16777216"
  using round32_exact_pow[of 1 24] by simp

lemma round32_bias_bound: "round32 (- 268435456) = - 268435456"
  using round32_exact_pow[of "- 1" 28] by simp

lemma trunc_exp_nonpos_finite: "y \<le> 0 \<Longrightarrow> is_finite (trunc_exp (Finite y))"
proof -
  assume "y \<le> 0"
  then have "exp y \<le> 1" by simp
  moreover have "(1::real) < 2 ^ 128 - 2 ^ 103" by simp
  moreover have "\<bar>exp y\<bar> = exp y" by simp
  ultimately have "\<not> 2 ^ 128 - 2 ^ 103 \<le> \<bar>exp y\<bar>" by linarith
  then show ?thesis by (simp only: trunc_exp.simps rnd.simps if_False is_finite.simps)
qed

lemma far_field_mapped:
  "map_domain_f32 far_field [[Finite (2 ^ 23), Finite 0, Finite 0]]
     = [[Finite 1, Finite (1 / 2), Finite (1 / 2)]]"
  using contract_far by (simp add: map_domain_f32_def far_field_def)

lemma far_field_pre_activation:
  "\<exists>y. pre_activation_f32 far_field [[Finite (2 ^ 23), Finite 0, Finite 0]] = [[Finite y]] \<and> y \<le> 0"
proof -
  let ?t = "round32 (- 167772150)"
  have b: "- 268435456 \<le> ?t \<and> ?t \<le> 0"
    using round32_between[of "- 268435456" "- 167772150" 0] round32_bias_bound round32_0 by simp
  then have o: "\<not> 2 ^ 128 - 2 ^ 103 \<le> \<bar>?t\<bar>" by (simp add: abs_if)
  have i: "round32 ?t = ?t" using round32_representable representable32_exact by blast
  have d: "density_bias_f32 [[Finite (2 ^ 23), Finite 0, Finite 0]] (Finite 10) (Finite (1 / 2))
      = [[Finite ?t]]"
    by (simp add: density_bias_f32_def Let_def f32_sum_def f32_mul_def
        f32_add_def f32_sub_def f32_div_def f32_sqrt_def exact32 sqrt_far_square round32_far_double)
  have h: "map (mlp_sigma_f32 far_field)
             (map (mlp_encoder_f32 far_field)
                (map_domain_f32 far_field [[Finite (2 ^ 23), Finite 0, Finite 0]])) = [[Finite 0]]"
    unfolding far_field_mapped by (simp add: far_field_def)
  have s: "f32_add (Finite 0) (Finite ?t) = Finite ?t"
    using o i by (simp add: f32_add_def)
  have "pre_activation_f32 far_field [[Finite (2 ^ 23), Finite 0, Finite 0]] = [[Finite ?t]]"
    unfolding pre_activation_f32_def Let_def d h by (simp add: s)
  with b show ?thesis by blast
qed

text \<open>
  Claim C2, as amended. In single precision, a point whose image under the domain mapping
  is not strictly inside the unit cube on every axis has density exactly zero whenever
  the value of the density activation at that point is finite: every entry of its row of
  the result of \<open>query_density\<close> is \<open>0\<close>, whatever finite value the head, the bias and the
  activation give.
\<close>

theorem query_density_f32_zero_outside_domain:
  assumes "i < length x"
    and "\<not> list_all fp_in_unit (map_domain_f32 f x ! i)"
    and "list_all (\<lambda>v. is_finite (density_activation_f32 f v)) (pre_activation_f32 f x ! i)"
  shows "list_all (\<lambda>v. v = Finite 0) (density_of_f32 (query_density_f32 f x return_feat) ! i)"
  using assms by (auto simp: density_f32_nth list_all_iff f32_mul_zero)

text \<open>
  An instance in unbounded mode: the position \<open>(2 ^ 23, 0, 0)\<close> is mapped to
  \<open>(1, 0.5, 0.5)\<close>, outside the open unit cube; the bias there is negative, the activation
  \<^verbatim>\<open>trunc_exp\<close> of the pre-activation finite, and the density zero.
\<close>

theorem query_density_f32_zero_outside_domain_witness:
  "(0::nat) < length [[Finite (2 ^ 23), Finite 0, Finite 0]]
   \<and> \<not> list_all fp_in_unit
         (map_domain_f32 far_field [[Finite (2 ^ 23), Finite 0, Finite 0]] ! 0)
   \<and> list_all (\<lambda>v. is_finite (density_activation_f32 far_field v))
        (pre_activation_f32 far_field [[Finite (2 ^ 23), Finite 0, Finite 0]] ! 0)
   \<and> list_all (\<lambda>v. v = Finite 0)
        (density_of_f32
           (query_density_f32 far_field [[Finite (2 ^ 23), Finite 0, Finite 0]] True) ! 0)"
proof -
  have i: "(0::nat) < length [[Finite (2 ^ 23), Finite 0, Finite 0]]" by simp
  have o: "\<not> list_all fp_in_unit
             (map_domain_f32 far_field [[Finite (2 ^ 23), Finite 0, Finite 0]] ! 0)"
    unfolding far_field_mapped by (simp add: fp_in_unit_def)
  from far_field_pre_activation obtain y
    where y: "pre_activation_f32 far_field [[Finite (2 ^ 23), Finite 0, Finite 0]] = [[Finite y]]"
      "y \<le> 0" by blast
  have a: "list_all (\<lambda>v. is_finite (density_activation_f32 far_field v))
        (pre_activation_f32 far_field [[Finite (2 ^ 23), Finite 0, Finite 0]] ! 0)"
    unfolding y(1) using trunc_exp_nonpos_finite[OF y(2)] by (simp add: far_field_def)
  from query_density_f32_zero_outside_domain[OF i o a, of True] i o a show ?thesis by blast
qed

lemma exp_170_overflows: "2 ^ 128 - 2 ^ 103 \<le> \<bar>exp (170::real)\<bar>"
proof -
  have "(2::real) \<le> exp 1" using exp_ge_add_one_self[of "1::real"] by simp
  then have "(2::real) ^ 170 \<le> exp 1 ^ 170" by (intro power_mono) simp_all
  also have "\<dots> = exp (170::real)" using exp_of_nat_mult[of 170 "1::real"] by simp
  finally have "(2::real) ^ 170 \<le> exp 170" .
  moreover have "(2::real) ^ 128 - 2 ^ 103 \<le> 2 ^ 170" by simp
  ultimately show ?thesis by simp
qed

lemma round32_three_halves: "round32 (3 / 2) = 3 / 2"
  using round32_exact_frac[of 3 1] by simp

text \<open>
  Claim C2 as stated fails where the activation overflows: with the activation
  \<^verbatim>\<open>trunc_exp\<close>, the identity box in bounded mode and a density head that returns \<open>200\<close>, the
  position \<open>(2, 0, 0)\<close> is mapped to \<open>(1.5, 0.5, 0.5)\<close>, outside the unit cube; the bias is
  \<open>10 * (1 - 2 / 0.5) = -30\<close>, the pre-activation \<open>170\<close>, its exponential \<open>+inf\<close> in single
  precision, and the masked density \<open>inf * 0\<close> is NaN, not \<open>0\<close>.
\<close>

theorem query_density_f32_overflow_counterexample:
  "density_of_f32 (query_density_f32 exp_field [[Finite 2, Finite 0, Finite 0]] False)
     = [[NaN]]
   \<and> map_domain_f32 exp_field [[Finite 2, Finite 0, Finite 0]]
       = [[Finite (3 / 2), Finite (1 / 2), Finite (1 / 2)]]
   \<and> pre_activation_f32 exp_field [[Finite 2, Finite 0, Finite 0]] = [[Finite 170]]"
proof -
  have m: "map_domain_f32 exp_field [[Finite 2, Finite 0, Finite 0]]
       = [[Finite (3 / 2), Finite (1 / 2), Finite (1 / 2)]]"
    by (simp add: map_domain_f32_def exp_field_def identity_box_def rescale_aabb_f32_def
        f32_sub_def f32_div_def exact32 round32_three_halves)
  have p: "pre_activation_f32 exp_field [[Finite 2, Finite 0, Finite 0]] = [[Finite 170]]"
    by (simp add: pre_activation_f32_def density_bias_f32_def m Let_def f32_sum_def f32_mul_def
        f32_add_def f32_sub_def f32_div_def f32_sqrt_def exact32)
       (simp add: exp_field_def f32_add_def exact32)
  have a: "trunc_exp (Finite 170) = PosInf" using exp_170_overflows by simp
  have "density_of_f32 (query_density_f32 exp_field [[Finite 2, Finite 0, Finite 0]] False)
     = [[NaN]]"
    using exp_170_overflows
    by (simp add: query_density_f32_def Let_def m p fp_in_unit_def)
       (simp add: exp_field_def f32_mul_def signed_inf_def)
  with m p show ?thesis by simp
qed

end
